theory Spec2Isabelle
  imports
    Main
    "HOL-Library.Char_ord"
    "HOL-Library.List_Lexorder"
    "HOL-Library.Sublist"
begin

section \<open>The translation script of dijkstra\_bot (src/translate/translate.py)\<close>

text \<open>
  The script loads a YAML resource file of key/value strings and, for each requested
  language, translates the values of the keys that the language's own file does not have
  yet, then writes that file back. The model below follows the script line by line:
  the two regular-expression substitutions, the path computation, the per-key loop,
  the merge loop and the final dump.

  Strings are \<^typ>\<open>string\<close>, that is lists of bytes. Python's strings are lists of code
  points, but every character the script looks at (\<open>@\<close> and \<open>/\<close>) is ASCII, and no byte
  of a longer UTF-8 sequence equals an ASCII byte, so the bytewise model agrees.
\<close>

subsection \<open>The marker substitution\<close>

text \<open>
  \<^verbatim>\<open>MAGIC_WORD = re.compile(r'@@@*')\<close> matches two \<open>@\<close> followed by as many \<open>@\<close> as
  there are (the star is greedy). \<^verbatim>\<open>MAGIC_WORD.sub('{}', value)\<close> scans from the left and
  replaces every such match by the two characters \<open>{}\<close>; a lone \<open>@\<close> matches nothing and is
  copied.
\<close>

function MAGIC_WORD_sub :: "string \<Rightarrow> string" where
  "MAGIC_WORD_sub [] = []"
| "MAGIC_WORD_sub [c] = [c]"
| "MAGIC_WORD_sub (c # d # cs) =
     (if c = CHR ''@'' \<and> d = CHR ''@''
      then ''{}'' @ MAGIC_WORD_sub (dropWhile (\<lambda>x. x = CHR ''@'') cs)
      else c # MAGIC_WORD_sub (d # cs))"
  by pat_completeness auto
termination
proof (relation "measure length", goal_cases)
  case 1
  show ?case by simp
next
  case (2 c d cs)
  have "length (dropWhile (\<lambda>x. x = CHR ''@'') cs) \<le> length cs"
    by (rule length_dropWhile_le)
  then show ?case by simp
next
  case (3 c d cs)
  show ?case by simp
qed

text \<open>A match of \<open>MAGIC_WORD\<close> somewhere in a string: two adjacent \<open>@\<close>.\<close>

definition has_marker :: "string \<Rightarrow> bool" where
  "has_marker s = sublist ''@@'' s"

text \<open>The literal placeholder token somewhere in a string.\<close>

definition has_placeholder :: "string \<Rightarrow> bool" where
  "has_placeholder s = sublist ''{}'' s"

subsection \<open>Paths\<close>

text \<open>
  Lines 39 and 40 call \<^verbatim>\<open>os.path.dirname\<close> and \<^verbatim>\<open>os.path.join\<close>. They are modelled as
  Python's \<^verbatim>\<open>posixpath\<close> defines them. \<open>dirname\<close> keeps the path up to and including its
  last \<open>/\<close> and then strips the trailing slashes, unless the head is made of slashes only.
  \<open>join\<close> returns its second argument when that starts with \<open>/\<close>, and otherwise appends it
  to the first, with a \<open>/\<close> between them unless the first is empty or ends with one.
\<close>

definition rstrip_sep :: "string \<Rightarrow> string" where
  "rstrip_sep s = rev (dropWhile (\<lambda>c. c = CHR ''/'') (rev s))"

definition dirname :: "string \<Rightarrow> string" where
  "dirname p =
     (let head = rev (dropWhile (\<lambda>c. c \<noteq> CHR ''/'') (rev p))
      in if head \<noteq> [] \<and> \<not> list_all (\<lambda>c. c = CHR ''/'') head then rstrip_sep head else head)"

definition path_join :: "string \<Rightarrow> string \<Rightarrow> string" where
  "path_join a b =
     (if b \<noteq> [] \<and> hd b = CHR ''/'' then b
      else if a = [] \<or> last a = CHR ''/'' then a @ b
      else a @ ''/'' @ b)"

text \<open>Lines 39 and 40: the path of the file of language \<open>lng\<close>.\<close>

definition out_path :: "string \<Rightarrow> string \<Rightarrow> string" where
  "out_path source lng = path_join (dirname source) (lng @ ''.yaml'')"

text \<open>
  \<^verbatim>\<open>posixpath.basename\<close>, the part of a path after its last \<open>/\<close>. The script does not call
  it; it is here to say what the file name of a path is.
\<close>

definition basename :: "string \<Rightarrow> string" where
  "basename p = rev (takeWhile (\<lambda>c. c \<noteq> CHR ''/'') (rev p))"

subsection \<open>YAML documents and Python values\<close>

text \<open>
  A file holds a YAML document. The script is written for flat mappings from strings to
  strings, so a document is such a mapping, given by its entries in the order of the
  file, or the empty (null) document, or text that does not parse. Sequences, scalars
  and nested values are outside the model.

  \<^verbatim>\<open>yaml.load\<close> turns a mapping into a Python \<^verbatim>\<open>dict\<close>, the null document into \<^verbatim>\<open>None\<close>,
  and raises on text that does not parse. A \<^verbatim>\<open>dict\<close> keeps its keys in insertion order:
  it is an association list, assignment to a key that is present replaces the value where
  the key stands, and assignment to a new key appends.

  \<^verbatim>\<open>yaml.dump\<close> is called without \<^verbatim>\<open>sort_keys\<close>, whose default is true: PyYAML sorts the
  items of a mapping before it writes them. Strings are compared as Python compares them,
  lexicographically by code point, which on UTF-8 bytes is the lexicographic order on
  byte lists. \<^verbatim>\<open>None\<close> is written as the null document.

  A file is identified with the document it holds: what \<^verbatim>\<open>yaml.dump\<close> writes is a
  function of the value dumped, and \<^verbatim>\<open>yaml.load\<close> reads back the mapping that was dumped.
\<close>

datatype document = YNull | YMap "(string \<times> string) list" | YInvalid

type_synonym dict = "(string \<times> string) list"

datatype pyval = PyNone | PyDict dict

datatype error = FileNotFoundError | YAMLError | AttributeError | TypeError | TranslateError

fun dict_setitem :: "dict \<Rightarrow> string \<Rightarrow> string \<Rightarrow> dict" where
  "dict_setitem [] k v = [(k, v)]"
| "dict_setitem ((k', v') # d) k v =
     (if k' = k then (k', v) # d else (k', v') # dict_setitem d k v)"

definition dict_of_entries :: "(string \<times> string) list \<Rightarrow> dict" where
  "dict_of_entries es = foldl (\<lambda>d (k, v). dict_setitem d k v) [] es"

fun yaml_load :: "document \<Rightarrow> error + pyval" where
  "yaml_load YNull = Inr PyNone"
| "yaml_load (YMap es) = Inr (PyDict (dict_of_entries es))"
| "yaml_load YInvalid = Inl YAMLError"

fun yaml_dump :: "pyval \<Rightarrow> document" where
  "yaml_dump PyNone = YNull"
| "yaml_dump (PyDict d) = YMap (sort_key fst d)"

text \<open>\<^verbatim>\<open>key in out_yaml\<close> (line 47): \<^verbatim>\<open>None\<close> is not iterable.\<close>

fun py_in :: "string \<Rightarrow> pyval \<Rightarrow> error + bool" where
  "py_in k PyNone = Inl TypeError"
| "py_in k (PyDict d) = Inr (k \<in> set (map fst d))"

text \<open>\<^verbatim>\<open>out_yaml[key] = line\<close> (line 56): \<^verbatim>\<open>None\<close> does not support item assignment.\<close>

fun py_setitem :: "pyval \<Rightarrow> string \<Rightarrow> string \<Rightarrow> error + pyval" where
  "py_setitem PyNone k v = Inl TypeError"
| "py_setitem (PyDict d) k v = Inr (PyDict (dict_setitem d k v))"

text \<open>\<^verbatim>\<open>contents.items()\<close> (line 46): \<^verbatim>\<open>None\<close> has no attribute \<^verbatim>\<open>items\<close>.\<close>

fun py_items :: "pyval \<Rightarrow> error + (string \<times> string) list" where
  "py_items PyNone = Inl AttributeError"
| "py_items (PyDict d) = Inr d"

text \<open>What a loaded document gives for a key: the value a reader of the file finds.\<close>

definition doc_lookup :: "document \<Rightarrow> string \<Rightarrow> string option" where
  "doc_lookup doc k =
     (case yaml_load doc of Inr (PyDict d) \<Rightarrow> map_of d k | _ \<Rightarrow> None)"

subsection \<open>The world: files, the translation backend, the console\<close>

text \<open>
  The script reads and writes files, calls the translation service and prints. The world
  is the file system (a map from paths to documents), the log of the calls made to the
  service so far, each with its text, its language and the reply (\<open>None\<close> when the call
  raised), and the lines printed.

  The service is outside the script: it is a parameter \<open>t\<close>, which gives a reply for a
  text and a language and may depend on every call made before. A reply \<open>None\<close> is a
  call that raises, whatever the cause.

  Opening a file for writing is taken to succeed.
\<close>

datatype call = Call (call_text: string) (call_dest: string) (call_reply: "string option")

type_synonym backend = "call list \<Rightarrow> string \<Rightarrow> string \<Rightarrow> string option"

record world =
  fs :: "string \<Rightarrow> document option"
  calls :: "call list"
  stdout :: "string list"

subsection \<open>The class \<open>ValueToHashtag\<close>\<close>

record ValueToHashtag =
  lang :: string
  lines :: "string list"

text \<open>\<^verbatim>\<open>__init__\<close> (lines 17 to 20); the translator object \<^verbatim>\<open>self.t\<close> is the parameter \<open>t\<close>.\<close>

definition new_ValueToHashtag :: "string \<Rightarrow> ValueToHashtag" where
  "new_ValueToHashtag lng = \<lparr>lang = lng, lines = []\<rparr>"

text \<open>
  Lines 22 to 26: substitute, call the service, append the reply to \<^verbatim>\<open>self.lines\<close> and
  return it. The result is the error or the returned text with the updated object, and
  the world with the call logged.
\<close>

definition value_to_hashtag ::
  "backend \<Rightarrow> ValueToHashtag \<Rightarrow> string \<Rightarrow> world \<Rightarrow> (error + string \<times> ValueToHashtag) \<times> world" where
  "value_to_hashtag t self val w =
     (let val' = MAGIC_WORD_sub val;
          reply = t (calls w) val' (lang self);
          w' = w\<lparr>calls := calls w @ [Call val' (lang self) reply]\<rparr>
      in case reply of
           None \<Rightarrow> (Inl TranslateError, w')
         | Some txt \<Rightarrow> (Inr (txt, self\<lparr>lines := lines self @ [txt]\<rparr>), w'))"

text \<open>Lines 28 to 30: the generator yields the substituted lines in order.\<close>

definition get_lines :: "ValueToHashtag \<Rightarrow> string list" where
  "get_lines self = map MAGIC_WORD_sub (lines self)"

subsection \<open>The function \<open>translate\<close>\<close>

text \<open>
  Lines 36 and 42 to 44: \<^verbatim>\<open>out_yaml\<close> starts as the empty dict and is replaced by the
  loaded file when the file exists.
\<close>

definition load_out_yaml :: "world \<Rightarrow> string \<Rightarrow> error + pyval" where
  "load_out_yaml w p = (case fs w p of None \<Rightarrow> Inr (PyDict []) | Some doc \<Rightarrow> yaml_load doc)"

text \<open>
  Lines 46 to 51, the loop over the items of the source: a key that \<^verbatim>\<open>out_yaml\<close> has is
  skipped; otherwise its value is translated, the key is appended to
  \<^verbatim>\<open>translated_keys\<close> and the returned text is printed. An exception leaves the loop with
  the world as it is then.
\<close>

fun translate_keys ::
  "backend \<Rightarrow> (string \<times> string) list \<Rightarrow> pyval \<Rightarrow> ValueToHashtag \<Rightarrow> string list \<Rightarrow> world
   \<Rightarrow> (error + ValueToHashtag \<times> string list) \<times> world" where
  "translate_keys t [] out_yaml hashtag translated_keys w = (Inr (hashtag, translated_keys), w)"
| "translate_keys t ((key, val) # rest) out_yaml hashtag translated_keys w =
     (case py_in key out_yaml of
        Inl e \<Rightarrow> (Inl e, w)
      | Inr present \<Rightarrow>
          if present then translate_keys t rest out_yaml hashtag translated_keys w
          else
            (case value_to_hashtag t hashtag val w of
               (Inl e, w') \<Rightarrow> (Inl e, w')
             | (Inr (out, hashtag'), w') \<Rightarrow>
                 translate_keys t rest out_yaml hashtag' (translated_keys @ [key])
                   (w'\<lparr>stdout := stdout w' @ [out]\<rparr>)))"

text \<open>Lines 54 to 56, the loop over the zipped keys and lines.\<close>

fun merge_lines :: "(string \<times> string) list \<Rightarrow> pyval \<Rightarrow> error + pyval" where
  "merge_lines [] out_yaml = Inr out_yaml"
| "merge_lines ((key, line) # rest) out_yaml =
     (case py_setitem out_yaml key line of
        Inl e \<Rightarrow> Inl e
      | Inr out_yaml' \<Rightarrow> merge_lines rest out_yaml')"

text \<open>
  Lines 36 to 58, the body of the loop over the languages. The result is the exception
  that ended it, if any, and the world it leaves.
\<close>

definition translate_lang ::
  "backend \<Rightarrow> pyval \<Rightarrow> string \<Rightarrow> string \<Rightarrow> world \<Rightarrow> error option \<times> world" where
  "translate_lang t contents source lng w =
     (case load_out_yaml w (out_path source lng) of
        Inl e \<Rightarrow> (Some e, w)
      | Inr out_yaml \<Rightarrow>
          (case py_items contents of
             Inl e \<Rightarrow> (Some e, w)
           | Inr kvs \<Rightarrow>
               (case translate_keys t kvs out_yaml (new_ValueToHashtag lng) [] w of
                  (Inl e, w1) \<Rightarrow> (Some e, w1)
                | (Inr (hashtag, translated_keys), w1) \<Rightarrow>
                    (let w2 = w1\<lparr>stdout := stdout w1 @ [lng @ '' complete'']\<rparr>
                     in case merge_lines (zip translated_keys (get_lines hashtag)) out_yaml of
                          Inl e \<Rightarrow> (Some e, w2)
                        | Inr out_yaml' \<Rightarrow>
                            (None, w2\<lparr>fs := (fs w2)(out_path source lng \<mapsto> yaml_dump out_yaml')\<rparr>)))))"

text \<open>Line 35, the loop over the languages: the first exception ends the run.\<close>

fun translate_langs ::
  "backend \<Rightarrow> pyval \<Rightarrow> string \<Rightarrow> string list \<Rightarrow> world \<Rightarrow> error option \<times> world" where
  "translate_langs t contents source [] w = (None, w)"
| "translate_langs t contents source (lng # langs) w =
     (case translate_lang t contents source lng w of
        (Some e, w') \<Rightarrow> (Some e, w')
      | (None, w') \<Rightarrow> translate_langs t contents source langs w')"

text \<open>
  Lines 32 to 34: open the source, which must exist, and load it once. The function
  \<^verbatim>\<open>run\<close> (lines 61 to 71) only parses the command line, which has a source and at least
  one language, and calls \<^verbatim>\<open>translate\<close>.
\<close>

definition translate :: "backend \<Rightarrow> string \<Rightarrow> string list \<Rightarrow> world \<Rightarrow> error option \<times> world" where
  "translate t source langs w =
     (case fs w source of
        None \<Rightarrow> (Some FileNotFoundError, w)
      | Some doc \<Rightarrow>
          (case yaml_load doc of
             Inl e \<Rightarrow> (Some e, w)
           | Inr contents \<Rightarrow> translate_langs t contents source langs w))"

text \<open>
  The keys of the source that the loop of lines 46 to 51 translates when \<^verbatim>\<open>out_yaml\<close> is
  the dict \<open>d\<close>: the items whose key \<open>d\<close> does not have, in the order of the source.
\<close>

definition queued :: "(string \<times> string) list \<Rightarrow> dict \<Rightarrow> (string \<times> string) list" where
  "queued kvs d = filter (\<lambda>kv. fst kv \<notin> set (map fst d)) kvs"

text \<open>The calls a step added to the log.\<close>

definition new_calls :: "world \<Rightarrow> world \<Rightarrow> call list" where
  "new_calls w w' = drop (length (calls w)) (calls w')"

text \<open>The entries written in a file, in the order of the file.\<close>

fun doc_entries :: "document \<Rightarrow> (string \<times> string) list" where
  "doc_entries (YMap es) = es"
| "doc_entries YNull = []"
| "doc_entries YInvalid = []"

text \<open>The items of a loaded value; \<^verbatim>\<open>None\<close> has none.\<close>

fun pyval_entries :: "pyval \<Rightarrow> (string \<times> string) list" where
  "pyval_entries (PyDict d) = d"
| "pyval_entries PyNone = []"

text \<open>
  Two backends to run the model on: one returns the text it is given, the other does the
  same but raises for the language code \<open>xx\<close>, which it does not know.
\<close>

definition echo_backend :: backend where
  "echo_backend hist s l = Some s"

definition picky_backend :: backend where
  "picky_backend hist s l = (if l = ''xx'' then None else Some s)"

text \<open>
  A small world to run the model on: a source of two entries, one with a marker and one
  with a lone \<open>@\<close>, and a French file that has one of the two keys and a key of its own.
\<close>

definition example_source :: "(string \<times> string) list" where
  "example_source = [(''b'', ''x @@ y''), (''a'', ''p @ q'')]"

definition example_target :: "(string \<times> string) list" where
  "example_target = [(''z'', ''old''), (''a'', ''kept'')]"

definition example_world :: world where
  "example_world =
     \<lparr>fs = [''dir/strings.yml'' \<mapsto> YMap example_source, ''dir/fr.yaml'' \<mapsto> YMap example_target],
      calls = [], stdout = []\<rparr>"

text \<open>The French step on the example, and what it leaves.\<close>

definition example_step :: "error option \<times> world" where
  "example_step =
     translate_lang echo_backend (PyDict example_source) ''dir/strings.yml'' ''fr'' example_world"

definition example_after :: world where
  "example_after =
     \<lparr>fs = [''dir/strings.yml'' \<mapsto> YMap example_source,
            ''dir/fr.yaml'' \<mapsto> YMap [(''a'', ''kept''), (''b'', ''x {} y''), (''z'', ''old'')]],
      calls = [Call ''x {} y'' ''fr'' (Some ''x {} y'')],
      stdout = [''x {} y'', ''fr complete'']\<rparr>"

text \<open>
  What the run for French and then \<open>xx\<close> leaves on the example with the second backend:
  the French file is written, the file of \<open>xx\<close> is not, and the last call is the one that
  raised.
\<close>

definition example_failed :: world where
  "example_failed =
     \<lparr>fs = [''dir/strings.yml'' \<mapsto> YMap example_source,
            ''dir/fr.yaml'' \<mapsto> YMap [(''a'', ''kept''), (''b'', ''x {} y''), (''z'', ''old'')]],
      calls = [Call ''x {} y'' ''fr'' (Some ''x {} y''), Call ''x {} y'' ''xx'' None],
      stdout = [''x {} y'', ''fr complete'']\<rparr>"

text \<open>A world whose source is the empty mapping and whose French file is the null document.\<close>

definition null_world :: world where
  "null_world =
     \<lparr>fs = [''dir/strings.yml'' \<mapsto> YMap [], ''dir/fr.yaml'' \<mapsto> YNull], calls = [], stdout = []\<rparr>"

text \<open>The same with one entry in the source.\<close>

definition null_target_world :: world where
  "null_target_world =
     \<lparr>fs = [''dir/strings.yml'' \<mapsto> YMap [(''k'', ''v'')], ''dir/fr.yaml'' \<mapsto> YNull],
      calls = [], stdout = []\<rparr>"

text \<open>A world whose source has one value with a lone \<open>@\<close>, and no French file.\<close>

definition lone_world :: world where
  "lone_world = \<lparr>fs = [''dir/strings.yml'' \<mapsto> YMap [(''k'', ''a @ b'')]], calls = [], stdout = []\<rparr>"

text \<open>
  A world whose source has one value with a marker, and no French file; and a backend
  that replies the same word to every text.
\<close>

definition marker_world :: world where
  "marker_world = \<lparr>fs = [''dir/strings.yml'' \<mapsto> YMap [(''k'', ''x @@ y'')]], calls = [], stdout = []\<rparr>"

definition deaf_backend :: backend where
  "deaf_backend hist s l = Some ''bonjour''"

text \<open>
  A document that a further run leaves alone, for a source whose keys are \<open>K\<close>: a mapping
  written in sorted order without a repeated key that has every key of the source, or
  the null document when the source has no key.
\<close>

fun settled :: "string set \<Rightarrow> document \<Rightarrow> bool" where
  "settled K (YMap es) = (sorted (map fst es) \<and> distinct (map fst es) \<and> K \<subseteq> set (map fst es))"
| "settled K YNull = (K = {})"
| "settled K YInvalid = False"

text \<open>
  What the backend is asked, and what it answers, when the texts \<open>ss\<close> are submitted in
  order for the language \<open>lng\<close> after the calls \<open>hist\<close>: one call per text, each answered
  by the backend in view of the calls before it, up to and including the first call that
  raises.
\<close>

fun ask_all :: "backend \<Rightarrow> call list \<Rightarrow> string \<Rightarrow> string list \<Rightarrow> call list" where
  "ask_all t hist lng [] = []"
| "ask_all t hist lng (s # ss) =
     (case t hist s lng of
        None \<Rightarrow> [Call s lng None]
      | Some r \<Rightarrow> Call s lng (Some r) # ask_all t (hist @ [Call s lng (Some r)]) lng ss)"

text \<open>
  Three keys to translate, out of alphabetical order, two of them with the same value,
  and no French file; a backend whose replies \<open>A\<close>, \<open>B\<close>, \<open>C\<close> depend on how many calls
  were made before and not on the text; and what the French step leaves.
\<close>

definition abc_source :: "(string \<times> string) list" where
  "abc_source = [(''c'', ''hi''), (''a'', ''hi''), (''b'', ''yo'')]"

definition abc_world :: world where
  "abc_world = \<lparr>fs = [''dir/strings.yml'' \<mapsto> YMap abc_source], calls = [], stdout = []\<rparr>"

definition stub_backend :: backend where
  "stub_backend hist s l = Some (case length hist of 0 \<Rightarrow> ''A'' | Suc 0 \<Rightarrow> ''B'' | _ \<Rightarrow> ''C'')"

definition abc_after :: world where
  "abc_after =
     \<lparr>fs = [''dir/strings.yml'' \<mapsto> YMap abc_source,
            ''dir/fr.yaml'' \<mapsto> YMap [(''a'', ''B''), (''b'', ''C''), (''c'', ''A'')]],
      calls = [Call ''hi'' ''fr'' (Some ''A''), Call ''hi'' ''fr'' (Some ''B''),
               Call ''yo'' ''fr'' (Some ''C'')],
      stdout = [''A'', ''B'', ''C'', ''fr complete'']\<rparr>"

text \<open>A backend that raises at its third call, whatever the text and the language.\<close>

definition flaky_backend :: backend where
  "flaky_backend hist s l = (if length hist = 2 then None else Some s)"

text \<open>
  What the run for French, \<open>xx\<close> and German leaves on the example with that backend: the
  French file is written, the first call for \<open>xx\<close> is answered, the second raises, and
  no file of \<open>xx\<close> or of German is written.
\<close>

definition flaky_failed :: world where
  "flaky_failed =
     \<lparr>fs = [''dir/strings.yml'' \<mapsto> YMap example_source,
            ''dir/fr.yaml'' \<mapsto> YMap [(''a'', ''kept''), (''b'', ''x {} y''), (''z'', ''old'')]],
      calls = [Call ''x {} y'' ''fr'' (Some ''x {} y''), Call ''x {} y'' ''xx'' (Some ''x {} y''),
               Call ''p @ q'' ''xx'' None],
      stdout = [''x {} y'', ''fr complete'', ''x {} y'']\<rparr>"

subsection \<open>Properties of the substitution\<close>

lemma sub_not_at:
  "c \<noteq> CHR ''@'' \<Longrightarrow> MAGIC_WORD_sub (c # cs) = c # MAGIC_WORD_sub cs"
  by (cases cs) simp_all

lemma sub_single_at:
  "cs = [] \<or> hd cs \<noteq> CHR ''@'' \<Longrightarrow>
   MAGIC_WORD_sub (CHR ''@'' # cs) = CHR ''@'' # MAGIC_WORD_sub cs"
  by (cases cs) auto

lemma has_marker_Cons:
  "has_marker (c # cs) \<longleftrightarrow> (c = CHR ''@'' \<and> cs \<noteq> [] \<and> hd cs = CHR ''@'') \<or> has_marker cs"
  by (cases cs) (auto simp: has_marker_def sublist_Cons_right)

lemma has_marker_Nil [simp]: "\<not> has_marker []"
  by (simp add: has_marker_def)

lemma sub_no_marker_aux:
  "\<not> has_marker (MAGIC_WORD_sub s) \<and>
   (MAGIC_WORD_sub s \<noteq> [] \<and> hd (MAGIC_WORD_sub s) = CHR ''@'' \<longrightarrow> s \<noteq> [] \<and> hd s = CHR ''@'')"
proof (induction s rule: MAGIC_WORD_sub.induct)
  case 1
  show ?case by simp
next
  case (2 c)
  show ?case by (simp add: has_marker_Cons)
next
  case (3 c d cs)
  show ?case
  proof (cases "c = CHR ''@'' \<and> d = CHR ''@''")
    case True
    with 3 have "\<not> has_marker (MAGIC_WORD_sub (dropWhile (\<lambda>x. x = CHR ''@'') cs))"
      by simp
    with True show ?thesis
      by (simp add: has_marker_Cons)
  next
    case False
    with 3 have ih: "\<not> has_marker (MAGIC_WORD_sub (d # cs))"
      "MAGIC_WORD_sub (d # cs) \<noteq> [] \<and> hd (MAGIC_WORD_sub (d # cs)) = CHR ''@'' \<longrightarrow> d = CHR ''@''"
      by simp_all
    from False ih show ?thesis
      by (auto simp: has_marker_Cons)
  qed
qed

lemma sub_no_marker: "\<not> has_marker (MAGIC_WORD_sub s)"
  using sub_no_marker_aux by blast

lemma sub_fixed: "\<not> has_marker s \<Longrightarrow> MAGIC_WORD_sub s = s"
proof (induction s rule: MAGIC_WORD_sub.induct)
  case 1
  show ?case by simp
next
  case (2 c)
  show ?case by simp
next
  case (3 c d cs)
  from "3.prems" have nm: "\<not> (c = CHR ''@'' \<and> d = CHR ''@'')" "\<not> has_marker (d # cs)"
    by (auto simp: has_marker_Cons)
  with "3.IH"(2) have "MAGIC_WORD_sub (d # cs) = d # cs"
    by blast
  with nm show ?case by auto
qed

text \<open>
  C8: the substitution is idempotent: for every string, substituting twice gives what
  substituting once gives.
\<close>

theorem MAGIC_WORD_sub_idempotent:
  "MAGIC_WORD_sub (MAGIC_WORD_sub s) = MAGIC_WORD_sub s"
  by (rule sub_fixed) (rule sub_no_marker)

theorem MAGIC_WORD_sub_idempotent_witness:
  "MAGIC_WORD_sub (MAGIC_WORD_sub ''a@@@b@c@@'') = MAGIC_WORD_sub ''a@@@b@c@@''"
  by (rule MAGIC_WORD_sub_idempotent)

subsection \<open>The loop over the items\<close>

lemma value_to_hashtag_cases:
  "value_to_hashtag t h val w = (r, w') \<Longrightarrow>
   (\<exists>out. r = Inr (out, h\<lparr>lines := lines h @ [out]\<rparr>) \<and>
          w' = w\<lparr>calls := calls w @ [Call (MAGIC_WORD_sub val) (lang h) (Some out)]\<rparr>) \<or>
   (r = Inl TranslateError \<and>
          w' = w\<lparr>calls := calls w @ [Call (MAGIC_WORD_sub val) (lang h) None]\<rparr>)"
  by (auto simp: value_to_hashtag_def Let_def split: option.splits)

lemma queued_Nil [simp]: "queued [] d = []"
  by (simp add: queued_def)

lemma queued_Cons:
  "queued ((k, v) # kvs) d = (if k \<in> set (map fst d) then queued kvs d else (k, v) # queued kvs d)"
  by (simp add: queued_def)

lemma translate_keys_ok:
  "translate_keys t kvs (PyDict d) h tk w = (Inr (h', tk'), w') \<Longrightarrow>
   \<exists>rs. length rs = length (queued kvs d) \<and>
        tk' = tk @ map fst (queued kvs d) \<and>
        lines h' = lines h @ rs \<and> lang h' = lang h \<and>
        calls w' = calls w @
          map2 (\<lambda>kv r. Call (MAGIC_WORD_sub (snd kv)) (lang h) (Some r)) (queued kvs d) rs \<and>
        fs w' = fs w \<and> stdout w' = stdout w @ rs"
proof (induction kvs arbitrary: h tk w)
  case Nil
  then show ?case by simp
next
  case (Cons kv kvs)
  obtain k v where kv: "kv = (k, v)" by (cases kv)
  show ?case
  proof (cases "k \<in> set (map fst d)")
    case True
    with Cons.prems kv have "translate_keys t kvs (PyDict d) h tk w = (Inr (h', tk'), w')"
      by simp
    from Cons.IH [OF this] True kv show ?thesis
      by (simp add: queued_Cons)
  next
    case False
    obtain r w1 where vh: "value_to_hashtag t h v w = (r, w1)"
      by (cases "value_to_hashtag t h v w")
    from value_to_hashtag_cases [OF vh] Cons.prems kv False vh
    obtain out where r: "r = Inr (out, h\<lparr>lines := lines h @ [out]\<rparr>)"
      and w1: "w1 = w\<lparr>calls := calls w @ [Call (MAGIC_WORD_sub v) (lang h) (Some out)]\<rparr>"
      by auto
    from Cons.prems kv False vh r
    have "translate_keys t kvs (PyDict d) (h\<lparr>lines := lines h @ [out]\<rparr>) (tk @ [k])
            (w1\<lparr>stdout := stdout w1 @ [out]\<rparr>) = (Inr (h', tk'), w')"
      by simp
    from Cons.IH [OF this] obtain rs where rs:
      "length rs = length (queued kvs d)"
      "tk' = (tk @ [k]) @ map fst (queued kvs d)"
      "lines h' = (lines h @ [out]) @ rs" "lang h' = lang h"
      "calls w' = calls w1 @
          map2 (\<lambda>kv r. Call (MAGIC_WORD_sub (snd kv)) (lang h) (Some r)) (queued kvs d) rs"
      "fs w' = fs w1" "stdout w' = (stdout w1 @ [out]) @ rs"
      by auto
    with w1 kv False show ?thesis
      by (intro exI [of _ "out # rs"]) (simp add: queued_Cons)
  qed
qed

lemma translate_keys_err:
  "translate_keys t kvs out_yaml h tk w = (Inl e, w') \<Longrightarrow>
   fs w' = fs w \<and>
   (e = TypeError \<and> out_yaml = PyNone \<and> w' = w \<or>
    e = TranslateError \<and> (\<exists>hist out. calls w' = hist @ [Call out (lang h) None]))"
proof (induction kvs arbitrary: h tk w)
  case Nil
  then show ?case by simp
next
  case (Cons kv kvs)
  obtain k v where kv: "kv = (k, v)" by (cases kv)
  show ?case
  proof (cases out_yaml)
    case PyNone
    with Cons.prems kv show ?thesis by simp
  next
    case (PyDict d)
    show ?thesis
    proof (cases "k \<in> set (map fst d)")
      case True
      with Cons.prems kv PyDict have "translate_keys t kvs out_yaml h tk w = (Inl e, w')"
        by simp
      from Cons.IH [OF this] show ?thesis .
    next
      case False
      obtain r w1 where vh: "value_to_hashtag t h v w = (r, w1)"
        by (cases "value_to_hashtag t h v w")
      from value_to_hashtag_cases [OF vh] show ?thesis
      proof (elim disjE exE conjE)
        fix out
        assume r: "r = Inr (out, h\<lparr>lines := lines h @ [out]\<rparr>)"
          and w1: "w1 = w\<lparr>calls := calls w @ [Call (MAGIC_WORD_sub v) (lang h) (Some out)]\<rparr>"
        from Cons.prems kv False vh r PyDict
        have "translate_keys t kvs out_yaml (h\<lparr>lines := lines h @ [out]\<rparr>) (tk @ [k])
                (w1\<lparr>stdout := stdout w1 @ [out]\<rparr>) = (Inl e, w')"
          by simp
        from Cons.IH [OF this] w1 PyDict show ?thesis by simp
      next
        assume r: "r = Inl TranslateError"
          and w1: "w1 = w\<lparr>calls := calls w @ [Call (MAGIC_WORD_sub v) (lang h) None]\<rparr>"
        from Cons.prems kv False vh r PyDict have "e = TranslateError" "w' = w1"
          by simp_all
        with w1 show ?thesis by auto
      qed
    qed
  qed
qed

lemma translate_keys_PyNone:
  "translate_keys t kvs PyNone h tk w =
     (if kvs = [] then (Inr (h, tk), w) else (Inl TypeError, w))"
  by (cases kvs) auto

subsection \<open>One language\<close>

lemma dict_setitem_fresh:
  "k \<notin> set (map fst d) \<Longrightarrow> dict_setitem d k v = d @ [(k, v)]"
  by (induction d) auto

lemma merge_lines_fresh:
  "distinct (map fst kvs) \<Longrightarrow> set (map fst kvs) \<inter> set (map fst d) = {} \<Longrightarrow>
   merge_lines kvs (PyDict d) = Inr (PyDict (d @ kvs))"
proof (induction kvs arbitrary: d)
  case Nil
  show ?case by simp
next
  case (Cons kv kvs)
  obtain k v where kv: "kv = (k, v)" by (cases kv)
  from Cons.prems kv have fresh: "k \<notin> set (map fst d)" by auto
  from Cons.prems kv have "distinct (map fst kvs)"
    "set (map fst kvs) \<inter> set (map fst (d @ [(k, v)])) = {}"
    by auto
  from Cons.IH [OF this] kv fresh show ?case
    by (simp add: dict_setitem_fresh)
qed

lemma queued_keys_fresh: "set (map fst (queued kvs d)) \<inter> set (map fst d) = {}"
  by (auto simp: queued_def)

lemma queued_distinct: "distinct (map fst kvs) \<Longrightarrow> distinct (map fst (queued kvs d))"
  by (simp add: queued_def distinct_map_filter)

lemma map_fst_zip_take:
  "length ys = length xs \<Longrightarrow> map fst (zip xs ys) = xs"
  by (simp add: map_fst_zip)

text \<open>What a language's step does when it ends without an exception.\<close>

lemma translate_lang_ok_dict:
  assumes run: "translate_lang t (PyDict c) source lng w = (None, w')"
    and old: "load_out_yaml w (out_path source lng) = Inr (PyDict d)"
    and dict: "distinct (map fst c)"
  shows "\<exists>rs. length rs = length (queued c d) \<and>
          calls w' = calls w @
            map2 (\<lambda>kv r. Call (MAGIC_WORD_sub (snd kv)) lng (Some r)) (queued c d) rs \<and>
          stdout w' = stdout w @ rs @ [lng @ '' complete''] \<and>
          fs w' = (fs w)(out_path source lng \<mapsto>
            YMap (sort_key fst (d @ zip (map fst (queued c d)) (map MAGIC_WORD_sub rs))))"
proof -
  obtain r w1 where tk: "translate_keys t c (PyDict d) (new_ValueToHashtag lng) [] w = (r, w1)"
    by (cases "translate_keys t c (PyDict d) (new_ValueToHashtag lng) [] w")
  from run old tk obtain h ks where r: "r = Inr (h, ks)"
    by (cases r) (auto simp: translate_lang_def)
  from translate_keys_ok [OF tk [unfolded r]] obtain rs where rs:
    "length rs = length (queued c d)" "ks = map fst (queued c d)" "lines h = rs"
    "calls w1 = calls w @
       map2 (\<lambda>kv r. Call (MAGIC_WORD_sub (snd kv)) lng (Some r)) (queued c d) rs"
    "fs w1 = fs w" "stdout w1 = stdout w @ rs"
    by (auto simp: new_ValueToHashtag_def)
  let ?new = "zip (map fst (queued c d)) (map MAGIC_WORD_sub rs)"
  have keys: "map fst ?new = map fst (queued c d)"
    using rs(1) by (simp add: map_fst_zip)
  have "merge_lines ?new (PyDict d) = Inr (PyDict (d @ ?new))"
    using queued_distinct [OF dict, of d] queued_keys_fresh [of c d]
    by (intro merge_lines_fresh) (simp_all only: keys)
  with run old tk r rs show ?thesis
    by (intro exI [of _ rs]) (auto simp: translate_lang_def get_lines_def)
qed

lemma translate_lang_PyNone:
  assumes old: "load_out_yaml w (out_path source lng) = Inr PyNone"
  shows "translate_lang t (PyDict c) source lng w =
     (if c = [] then (None, w\<lparr>stdout := stdout w @ [lng @ '' complete''],
                               fs := (fs w)(out_path source lng \<mapsto> YNull)\<rparr>)
      else (Some TypeError, w))"
  using old by (simp add: translate_lang_def translate_keys_PyNone get_lines_def new_ValueToHashtag_def)

lemma load_out_yaml_err: "load_out_yaml w p = Inl e \<Longrightarrow> e = YAMLError"
  by (auto simp: load_out_yaml_def split: option.splits elim: yaml_load.elims)

lemma merge_lines_PyDict: "\<exists>d'. merge_lines kvs (PyDict d) = Inr (PyDict d')"
  by (induction kvs arbitrary: d) auto

lemma translate_lang_err:
  assumes run: "translate_lang t contents source lng w = (Some e, w')"
  shows "fs w' = fs w \<and>
     (e = TranslateError \<longrightarrow> (\<exists>hist out. calls w' = hist @ [Call out lng None]))"
proof (cases "load_out_yaml w (out_path source lng)")
  case (Inl a)
  with run load_out_yaml_err [OF Inl] show ?thesis by (auto simp: translate_lang_def)
next
  case (Inr out_yaml)
  show ?thesis
  proof (cases contents)
    case PyNone
    with run Inr show ?thesis by (auto simp: translate_lang_def)
  next
    case (PyDict c)
    obtain r w1 where tk: "translate_keys t c out_yaml (new_ValueToHashtag lng) [] w = (r, w1)"
      by (cases "translate_keys t c out_yaml (new_ValueToHashtag lng) [] w")
    show ?thesis
    proof (cases r)
      case (Inl e')
      with run Inr PyDict tk have "e' = e" "w' = w1"
        by (simp_all add: translate_lang_def)
      with translate_keys_err [OF tk [unfolded Inl]] show ?thesis
        by (auto simp: new_ValueToHashtag_def)
    next
      case (Inr b)
      obtain h ks where b: "b = (h, ks)" by (cases b)
      show ?thesis
      proof (cases out_yaml)
        case PyNone
        with tk Inr b have "c = []" "ks = []"
          by (auto simp: translate_keys_PyNone split: if_splits)
        with run \<open>load_out_yaml w (out_path source lng) = Inr out_yaml\<close> PyDict tk Inr b PyNone
        show ?thesis by (simp add: translate_lang_def)
      next
        case (PyDict d)
        obtain d' where "merge_lines (zip ks (get_lines h)) (PyDict d) = Inr (PyDict d')"
          using merge_lines_PyDict by blast
        with run \<open>load_out_yaml w (out_path source lng) = Inr out_yaml\<close>
          \<open>contents = PyDict c\<close> tk Inr b PyDict
        show ?thesis by (simp add: translate_lang_def)
      qed
    qed
  qed
qed

subsection \<open>Dictionaries and dumps\<close>

lemma keys_dict_setitem_present:
  "k \<in> set (map fst d) \<Longrightarrow> map fst (dict_setitem d k v) = map fst d"
proof (induction d)
  case Nil
  then show ?case by simp
next
  case (Cons e d)
  obtain k' v' where e: "e = (k', v')" by (cases e)
  show ?case
  proof (cases "k' = k")
    case True
    with e show ?thesis by simp
  next
    case False
    with Cons.prems e have "k \<in> set (map fst d)" by auto
    from Cons.IH [OF this] False e show ?thesis by simp
  qed
qed

lemma set_keys_dict_setitem:
  "set (map fst (dict_setitem d k v)) = insert k (set (map fst d))"
proof (cases "k \<in> set (map fst d)")
  case True
  then show ?thesis by (auto simp: keys_dict_setitem_present)
next
  case False
  then show ?thesis by (simp add: dict_setitem_fresh)
qed

lemma distinct_keys_dict_setitem:
  "distinct (map fst d) \<Longrightarrow> distinct (map fst (dict_setitem d k v))"
proof (cases "k \<in> set (map fst d)")
  case True
  assume "distinct (map fst d)"
  with True show ?thesis by (simp add: keys_dict_setitem_present)
next
  case False
  assume "distinct (map fst d)"
  with False show ?thesis by (simp add: dict_setitem_fresh)
qed

lemma foldl_setitem_keys:
  "set (map fst (foldl (\<lambda>d (k, v). dict_setitem d k v) d es)) = set (map fst d) \<union> set (map fst es)"
proof (induction es arbitrary: d)
  case Nil
  show ?case by simp
next
  case (Cons e es)
  obtain k v where e: "e = (k, v)" by (cases e)
  have "set (map fst (foldl (\<lambda>d (k, v). dict_setitem d k v) (dict_setitem d k v) es)) =
        set (map fst (dict_setitem d k v)) \<union> set (map fst es)"
    by (rule Cons.IH)
  with e show ?case
    by (simp only: foldl_Cons case_prod_conv set_keys_dict_setitem list.simps(9) fst_conv
        list.simps(15)) blast
qed

lemma foldl_setitem_distinct:
  "distinct (map fst d) \<Longrightarrow> distinct (map fst (foldl (\<lambda>d (k, v). dict_setitem d k v) d es))"
proof (induction es arbitrary: d)
  case Nil
  then show ?case by simp
next
  case (Cons e es)
  obtain k v where e: "e = (k, v)" by (cases e)
  from Cons.prems have "distinct (map fst (dict_setitem d k v))"
    by (rule distinct_keys_dict_setitem)
  from Cons.IH [OF this] e show ?case by simp
qed

lemma foldl_setitem_fresh:
  "distinct (map fst es) \<Longrightarrow> set (map fst es) \<inter> set (map fst d) = {} \<Longrightarrow>
   foldl (\<lambda>d (k, v). dict_setitem d k v) d es = d @ es"
proof (induction es arbitrary: d)
  case Nil
  show ?case by simp
next
  case (Cons e es)
  obtain k v where e: "e = (k, v)" by (cases e)
  from Cons.prems e have fresh: "k \<notin> set (map fst d)" by auto
  from Cons.prems e have "distinct (map fst es)"
    "set (map fst es) \<inter> set (map fst (d @ [(k, v)])) = {}"
    by auto
  from Cons.IH [OF this] e fresh show ?case
    by (simp add: dict_setitem_fresh)
qed

lemma dict_of_entries_keys: "set (map fst (dict_of_entries es)) = set (map fst es)"
  using foldl_setitem_keys [of "[]" es] by (simp add: dict_of_entries_def)

lemma dict_of_entries_distinct: "distinct (map fst (dict_of_entries es))"
  by (simp add: dict_of_entries_def foldl_setitem_distinct)

lemma dict_of_entries_id: "distinct (map fst es) \<Longrightarrow> dict_of_entries es = es"
  using foldl_setitem_fresh [of es "[]"] by (simp add: dict_of_entries_def)

lemma load_out_yaml_distinct:
  "load_out_yaml w p = Inr (PyDict d) \<Longrightarrow> distinct (map fst d)"
  by (auto simp: load_out_yaml_def dict_of_entries_distinct split: option.splits
      elim!: yaml_load.elims)

lemma distinct_keys_sort_key:
  "distinct (map fst (sort_key fst xs)) = distinct (map fst xs)"
  by (induction xs) (auto simp: distinct_insort_key)

lemma map_of_sort_key:
  "distinct (map fst xs) \<Longrightarrow> map_of (sort_key fst xs) = map_of xs"
  by (subst map_of_inject_set) (simp_all add: distinct_keys_sort_key)

lemma doc_lookup_dump:
  "distinct (map fst xs) \<Longrightarrow> doc_lookup (yaml_dump (PyDict xs)) k = map_of xs k"
  by (simp add: doc_lookup_def dict_of_entries_id distinct_keys_sort_key map_of_sort_key)

lemma merged_distinct:
  assumes "distinct (map fst d)" "distinct (map fst c)" "length rs = length (queued c d)"
  shows "distinct (map fst (d @ zip (map fst (queued c d)) rs))"
proof -
  have "map fst (zip (map fst (queued c d)) rs) = map fst (queued c d)"
    using assms(3) by (simp add: map_fst_zip)
  with assms(1) queued_distinct [OF assms(2), of d] queued_keys_fresh [of c d]
  show ?thesis by auto
qed

lemma new_calls_append: "calls w' = calls w @ xs \<Longrightarrow> new_calls w w' = xs"
  by (simp add: new_calls_def)

subsection \<open>Keys the target has already\<close>

lemmas run_defs =
  translate_def translate_lang_def out_path_def dirname_def path_join_def rstrip_sep_def
  load_out_yaml_def dict_of_entries_def new_ValueToHashtag_def value_to_hashtag_def
  get_lines_def Let_def

lemmas example_defs =
  example_step_def example_world_def example_source_def example_target_def example_after_def
  translate_lang_def out_path_def dirname_def path_join_def rstrip_sep_def load_out_yaml_def
  dict_of_entries_def new_ValueToHashtag_def value_to_hashtag_def get_lines_def
  echo_backend_def Let_def

lemma example_step_eq: "example_step = (None, example_after)"
  by (simp add: example_defs)

lemma example_out_path: "out_path ''dir/strings.yml'' ''fr'' = ''dir/fr.yaml''"
  by (simp add: out_path_def dirname_def path_join_def rstrip_sep_def)

lemma example_old:
  "load_out_yaml example_world (out_path ''dir/strings.yml'' ''fr'') = Inr (PyDict example_target)"
  by (simp add: example_defs)

lemma translate_keys_calls:
  "translate_keys t kvs (PyDict d) h tk w = (r, w') \<Longrightarrow>
   \<exists>rs. length rs \<le> length (queued kvs d) \<and>
        calls w' = calls w @
          map2 (\<lambda>kv r. Call (MAGIC_WORD_sub (snd kv)) (lang h) r) (queued kvs d) rs"
proof (induction kvs arbitrary: h tk w)
  case Nil
  then show ?case by simp
next
  case (Cons kv kvs)
  obtain k v where kv: "kv = (k, v)" by (cases kv)
  show ?case
  proof (cases "k \<in> set (map fst d)")
    case True
    with Cons.prems kv have "translate_keys t kvs (PyDict d) h tk w = (r, w')"
      by simp
    from Cons.IH [OF this] True kv show ?thesis
      by (simp add: queued_Cons)
  next
    case False
    obtain r1 w1 where vh: "value_to_hashtag t h v w = (r1, w1)"
      by (cases "value_to_hashtag t h v w")
    from value_to_hashtag_cases [OF vh] show ?thesis
    proof (elim disjE exE conjE)
      fix out
      assume r1: "r1 = Inr (out, h\<lparr>lines := lines h @ [out]\<rparr>)"
        and w1: "w1 = w\<lparr>calls := calls w @ [Call (MAGIC_WORD_sub v) (lang h) (Some out)]\<rparr>"
      from Cons.prems kv False vh r1
      have "translate_keys t kvs (PyDict d) (h\<lparr>lines := lines h @ [out]\<rparr>) (tk @ [k])
              (w1\<lparr>stdout := stdout w1 @ [out]\<rparr>) = (r, w')"
        by simp
      from Cons.IH [OF this] obtain rs where rs: "length rs \<le> length (queued kvs d)"
        "calls w' = calls w1 @
           map2 (\<lambda>kv r. Call (MAGIC_WORD_sub (snd kv)) (lang h) r) (queued kvs d) rs"
        by auto
      with w1 kv False show ?thesis
        by (intro exI [of _ "Some out # rs"]) (simp add: queued_Cons)
    next
      assume r1: "r1 = Inl TranslateError"
        and w1: "w1 = w\<lparr>calls := calls w @ [Call (MAGIC_WORD_sub v) (lang h) None]\<rparr>"
      from Cons.prems kv False vh r1 have "w' = w1" by simp
      with w1 kv False show ?thesis
        by (intro exI [of _ "[None]"]) (simp add: queued_Cons)
    qed
  qed
qed

lemma translate_lang_calls:
  assumes run: "translate_lang t (PyDict c) source lng w = (res, w')"
    and old: "load_out_yaml w (out_path source lng) = Inr (PyDict d)"
  shows "\<exists>rs. length rs \<le> length (queued c d) \<and>
           calls w' = calls w @
             map2 (\<lambda>kv r. Call (MAGIC_WORD_sub (snd kv)) lng r) (queued c d) rs"
proof -
  obtain r w1 where tk: "translate_keys t c (PyDict d) (new_ValueToHashtag lng) [] w = (r, w1)"
    by (cases "translate_keys t c (PyDict d) (new_ValueToHashtag lng) [] w")
  have "calls w' = calls w1"
  proof (cases r)
    case (Inl e)
    with run old tk show ?thesis by (simp add: translate_lang_def)
  next
    case (Inr b)
    obtain h ks where b: "b = (h, ks)" by (cases b)
    obtain d' where "merge_lines (zip ks (get_lines h)) (PyDict d) = Inr (PyDict d')"
      using merge_lines_PyDict by blast
    with run old tk Inr b show ?thesis by (auto simp: translate_lang_def)
  qed
  with translate_keys_calls [OF tk] show ?thesis
    by (simp add: new_ValueToHashtag_def)
qed

lemma load_out_yaml_file:
  "load_out_yaml w p = Inr (PyDict d) \<Longrightarrow> k \<in> set (map fst d) \<Longrightarrow>
   \<exists>doc. fs w p = Some doc \<and> doc_lookup doc k = map_of d k"
  by (auto simp: load_out_yaml_def doc_lookup_def split: option.splits)

lemma map_of_append_left:
  "k \<in> set (map fst d) \<Longrightarrow> set (map fst new) \<inter> set (map fst d) = {} \<Longrightarrow>
   map_of (d @ new) k = map_of d k"
  by (auto simp: map_add_def map_of_eq_None_iff split: option.splits)

text \<open>
  C3: a key that the target map has when a language is processed is not among the items
  queued for translation, every call made to the backend while the language is processed
  is the call for a queued item, in their order, and what the target file gives for the
  key after the step is what the target map gave before, whatever the source's value for
  the key and however the step ends.
\<close>

theorem existing_key_untouched:
  assumes run: "translate_lang t (PyDict c) source lng w = (res, w')"
    and old: "load_out_yaml w (out_path source lng) = Inr (PyDict d)"
    and key: "k \<in> set (map fst d)"
    and dict: "distinct (map fst c)"
  shows "k \<notin> set (map fst (queued c d)) \<and>
     (\<exists>rs. length rs \<le> length (queued c d) \<and>
        new_calls w w' = map2 (\<lambda>kv r. Call (MAGIC_WORD_sub (snd kv)) lng r) (queued c d) rs) \<and>
     (\<exists>doc. fs w' (out_path source lng) = Some doc \<and> doc_lookup doc k = map_of d k)"
proof (intro conjI)
  show "k \<notin> set (map fst (queued c d))"
    using key queued_keys_fresh [of c d] by auto
  show "\<exists>rs. length rs \<le> length (queued c d) \<and>
        new_calls w w' = map2 (\<lambda>kv r. Call (MAGIC_WORD_sub (snd kv)) lng r) (queued c d) rs"
    using translate_lang_calls [OF run old] by (auto simp: new_calls_def)
  show "\<exists>doc. fs w' (out_path source lng) = Some doc \<and> doc_lookup doc k = map_of d k"
  proof (cases res)
    case (Some e)
    with run translate_lang_err [of t "PyDict c" source lng w e w'] have "fs w' = fs w"
      by simp
    with load_out_yaml_file [OF old key] show ?thesis by simp
  next
    case None
    from translate_lang_ok_dict [OF run [unfolded None] old dict] obtain rs where
      len: "length rs = length (queued c d)" and
      written: "fs w' = (fs w)(out_path source lng \<mapsto>
            YMap (sort_key fst (d @ zip (map fst (queued c d)) (map MAGIC_WORD_sub rs))))"
      by blast
    let ?new = "zip (map fst (queued c d)) (map MAGIC_WORD_sub rs)"
    have keys: "map fst ?new = map fst (queued c d)"
      using len by (simp add: map_fst_zip)
    have dist: "distinct (map fst (d @ ?new))"
      using merged_distinct [OF load_out_yaml_distinct [OF old] dict, of "map MAGIC_WORD_sub rs"] len
      by simp
    have "doc_lookup (yaml_dump (PyDict (d @ ?new))) k = map_of (d @ ?new) k"
      using dist by (rule doc_lookup_dump)
    also have "\<dots> = map_of d k"
      using key queued_keys_fresh [of c d] by (intro map_of_append_left) (simp_all only: keys)
    finally show ?thesis using written by simp
  qed
qed

theorem existing_key_untouched_witness:
  "''a'' \<notin> set (map fst (queued example_source example_target)) \<and>
   (\<exists>rs. length rs \<le> length (queued example_source example_target) \<and>
      new_calls example_world example_after =
        map2 (\<lambda>kv r. Call (MAGIC_WORD_sub (snd kv)) ''fr'' r) (queued example_source example_target) rs) \<and>
   (\<exists>doc. fs example_after (out_path ''dir/strings.yml'' ''fr'') = Some doc \<and>
      doc_lookup doc ''a'' = map_of example_target ''a'')"
proof -
  have run: "translate_lang echo_backend (PyDict example_source) ''dir/strings.yml'' ''fr''
      example_world = (None, example_after)"
    using example_step_eq by (simp add: example_step_def)
  have key: "''a'' \<in> set (map fst example_target)"
    by (simp add: example_target_def)
  have dict: "distinct (map fst example_source)"
    by (simp add: example_source_def)
  show ?thesis
    by (rule existing_key_untouched [OF run example_old key dict])
qed

subsection \<open>Queued keys and the merged file\<close>

lemma example_run:
  "translate_lang echo_backend (PyDict example_source) ''dir/strings.yml'' ''fr''
      example_world = (None, example_after)"
  using example_step_eq by (simp add: example_step_def)

lemma example_dict: "distinct (map fst example_source)"
  by (simp add: example_source_def)

lemma example_queued: "queued example_source example_target = [(''b'', ''x @@ y'')]"
  by (simp add: queued_def example_source_def example_target_def)

lemma map_of_append_right:
  assumes "distinct (map fst new)" "n < length new" "set (map fst new) \<inter> set (map fst d) = {}"
  shows "map_of (d @ new) (fst (new ! n)) = Some (snd (new ! n))"
proof -
  have "(fst (new ! n), snd (new ! n)) \<in> set new"
    using assms(2) by (metis nth_mem prod.collapse)
  with assms(1) have "map_of new (fst (new ! n)) = Some (snd (new ! n))"
    by simp
  moreover have "fst (new ! n) \<in> set (map fst new)"
    using assms(2) by simp
  with assms(3) have "map_of d (fst (new ! n)) = None"
    by (simp only: map_of_eq_None_iff set_map [symmetric]) blast
  ultimately show ?thesis by (simp add: map_add_def)
qed

text \<open>
  The replies of a step that ends normally: one per queued item, logged in the order of
  the items, and each found in the file, substituted, under the key of its item.
\<close>

lemma step_replies:
  assumes run: "translate_lang t (PyDict c) source lng w = (None, w')"
    and old: "load_out_yaml w (out_path source lng) = Inr (PyDict d)"
    and dict: "distinct (map fst c)"
    and n: "n < length (queued c d)"
  shows "\<exists>rs doc. length rs = length (queued c d) \<and>
     new_calls w w' =
       map2 (\<lambda>kv r. Call (MAGIC_WORD_sub (snd kv)) lng (Some r)) (queued c d) rs \<and>
     fs w' (out_path source lng) = Some doc \<and>
     doc_lookup doc (fst (queued c d ! n)) = Some (MAGIC_WORD_sub (rs ! n))"
proof -
  from translate_lang_ok_dict [OF run old dict] obtain rs where
    len: "length rs = length (queued c d)" and
    cs: "calls w' = calls w @
            map2 (\<lambda>kv r. Call (MAGIC_WORD_sub (snd kv)) lng (Some r)) (queued c d) rs" and
    written: "fs w' = (fs w)(out_path source lng \<mapsto>
            YMap (sort_key fst (d @ zip (map fst (queued c d)) (map MAGIC_WORD_sub rs))))"
    by blast
  let ?new = "zip (map fst (queued c d)) (map MAGIC_WORD_sub rs)"
  have nc: "new_calls w w' =
      map2 (\<lambda>kv r. Call (MAGIC_WORD_sub (snd kv)) lng (Some r)) (queued c d) rs"
    using cs by (rule new_calls_append)
  have keys: "map fst ?new = map fst (queued c d)"
    using len by (simp add: map_fst_zip)
  have dnew: "distinct (map fst ?new)"
    using queued_distinct [OF dict, of d] by (simp only: keys)
  have dist: "distinct (map fst (d @ ?new))"
    using merged_distinct [OF load_out_yaml_distinct [OF old] dict, of "map MAGIC_WORD_sub rs"] len
    by simp
  have nth: "?new ! n = (fst (queued c d ! n), MAGIC_WORD_sub (rs ! n))"
    using n len by simp
  have "doc_lookup (yaml_dump (PyDict (d @ ?new))) (fst (?new ! n)) = map_of (d @ ?new) (fst (?new ! n))"
    using dist by (rule doc_lookup_dump)
  also have "\<dots> = Some (snd (?new ! n))"
    using dnew n len queued_keys_fresh [of c d]
    by (intro map_of_append_right) (simp_all only: keys length_zip length_map min.idem)
  finally have look: "doc_lookup (yaml_dump (PyDict (d @ ?new))) (fst (queued c d ! n)) =
      Some (MAGIC_WORD_sub (rs ! n))"
    by (simp only: nth fst_conv snd_conv)
  show ?thesis
    using len nc look written by auto
qed

text \<open>
  C4: when a language's step ends without an exception, the calls it made are as many as
  the queued items, the Nth call carries the substituted value of the Nth queued item,
  and the file gives, for the key of the Nth queued item, the substituted reply of that
  Nth call.
\<close>

theorem positional_correspondence:
  assumes run: "translate_lang t (PyDict c) source lng w = (None, w')"
    and old: "load_out_yaml w (out_path source lng) = Inr (PyDict d)"
    and dict: "distinct (map fst c)"
    and n: "n < length (queued c d)"
  shows "length (new_calls w w') = length (queued c d) \<and>
     (\<exists>r doc. new_calls w w' ! n = Call (MAGIC_WORD_sub (snd (queued c d ! n))) lng (Some r) \<and>
        fs w' (out_path source lng) = Some doc \<and>
        doc_lookup doc (fst (queued c d ! n)) = Some (MAGIC_WORD_sub r))"
proof -
  from step_replies [OF run old dict n] obtain rs doc where
    len: "length rs = length (queued c d)" and
    nc: "new_calls w w' =
      map2 (\<lambda>kv r. Call (MAGIC_WORD_sub (snd kv)) lng (Some r)) (queued c d) rs" and
    doc: "fs w' (out_path source lng) = Some doc"
      "doc_lookup doc (fst (queued c d ! n)) = Some (MAGIC_WORD_sub (rs ! n))"
    by blast
  have "length (new_calls w w') = length (queued c d)"
    using len by (simp add: nc)
  moreover have "new_calls w w' ! n =
      Call (MAGIC_WORD_sub (snd (queued c d ! n))) lng (Some (rs ! n))"
    using n len by (simp add: nc)
  ultimately show ?thesis
    using doc by blast
qed

lemma abc_run:
  "translate_lang stub_backend (PyDict abc_source) ''dir/strings.yml'' ''fr'' abc_world =
     (None, abc_after)"
  by (simp add: abc_world_def abc_after_def abc_source_def stub_backend_def run_defs)

lemma abc_old:
  "load_out_yaml abc_world (out_path ''dir/strings.yml'' ''fr'') = Inr (PyDict [])"
  by (simp add: abc_world_def load_out_yaml_def example_out_path)

lemma abc_queued: "queued abc_source [] = abc_source"
  by (simp add: queued_def)

theorem positional_correspondence_witness:
  "length (new_calls abc_world abc_after) = length (queued abc_source []) \<and>
   (\<exists>r doc. new_calls abc_world abc_after ! 1 =
        Call (MAGIC_WORD_sub (snd (queued abc_source [] ! 1))) ''fr'' (Some r) \<and>
      fs abc_after (out_path ''dir/strings.yml'' ''fr'') = Some doc \<and>
      doc_lookup doc (fst (queued abc_source [] ! 1)) = Some (MAGIC_WORD_sub r)) \<and>
   queued abc_source [] = [(''c'', ''hi''), (''a'', ''hi''), (''b'', ''yo'')] \<and>
   new_calls abc_world abc_after =
     [Call ''hi'' ''fr'' (Some ''A''), Call ''hi'' ''fr'' (Some ''B''), Call ''yo'' ''fr'' (Some ''C'')] \<and>
   fs abc_after (out_path ''dir/strings.yml'' ''fr'') =
     Some (YMap [(''a'', ''B''), (''b'', ''C''), (''c'', ''A'')])"
proof -
  have dict: "distinct (map fst abc_source)"
    by (simp add: abc_source_def)
  have n: "1 < length (queued abc_source [])"
    by (simp add: queued_def abc_source_def)
  have "length (new_calls abc_world abc_after) = length (queued abc_source []) \<and>
   (\<exists>r doc. new_calls abc_world abc_after ! 1 =
        Call (MAGIC_WORD_sub (snd (queued abc_source [] ! 1))) ''fr'' (Some r) \<and>
      fs abc_after (out_path ''dir/strings.yml'' ''fr'') = Some doc \<and>
      doc_lookup doc (fst (queued abc_source [] ! 1)) = Some (MAGIC_WORD_sub r))"
    by (rule positional_correspondence [OF abc_run abc_old dict n])
  moreover have "queued abc_source [] = [(''c'', ''hi''), (''a'', ''hi''), (''b'', ''yo'')]"
    by (simp add: queued_def abc_source_def)
  moreover have "new_calls abc_world abc_after =
     [Call ''hi'' ''fr'' (Some ''A''), Call ''hi'' ''fr'' (Some ''B''), Call ''yo'' ''fr'' (Some ''C'')]"
    by (simp add: new_calls_def abc_world_def abc_after_def)
  moreover have "fs abc_after (out_path ''dir/strings.yml'' ''fr'') =
     Some (YMap [(''a'', ''B''), (''b'', ''C''), (''c'', ''A'')])"
    by (simp add: abc_after_def example_out_path)
  ultimately show ?thesis by (intro conjI) (erule conjunct1, erule conjunct2, assumption+)
qed

text \<open>
  C5: when a language's step ends without an exception, the entries of the file it
  leaves are the entries of the target map it loaded together with one entry for each
  queued item, whose value is the substituted reply of the call made for that item; no
  key occurs twice; and when there was no file, every item of the source is queued, so
  every key of the source has its entry.
\<close>

theorem merged_target:
  assumes run: "translate_lang t (PyDict c) source lng w = (None, w')"
    and old: "load_out_yaml w (out_path source lng) = Inr out_yaml"
    and dict: "distinct (map fst c)"
  shows "\<exists>rs doc. length rs = length (queued c (pyval_entries out_yaml)) \<and>
     new_calls w w' =
       map2 (\<lambda>kv r. Call (MAGIC_WORD_sub (snd kv)) lng (Some r)) (queued c (pyval_entries out_yaml)) rs \<and>
     fs w' (out_path source lng) = Some doc \<and>
     set (doc_entries doc) = set (pyval_entries out_yaml) \<union>
       set (zip (map fst (queued c (pyval_entries out_yaml))) (map MAGIC_WORD_sub rs)) \<and>
     distinct (map fst (doc_entries doc)) \<and>
     (fs w (out_path source lng) = None \<longrightarrow> queued c (pyval_entries out_yaml) = c)"
proof (cases out_yaml)
  case PyNone
  with run translate_lang_PyNone [of w source lng t c] old
  have c: "c = []" and w': "w' = w\<lparr>stdout := stdout w @ [lng @ '' complete''],
                               fs := (fs w)(out_path source lng \<mapsto> YNull)\<rparr>"
    by (auto split: if_splits)
  show ?thesis
    by (intro exI [of _ "[]"] exI [of _ YNull]) (simp add: PyNone c w' new_calls_def)
next
  case (PyDict d)
  from translate_lang_ok_dict [OF run old [unfolded PyDict] dict] obtain rs where
    len: "length rs = length (queued c d)" and
    cs: "calls w' = calls w @
            map2 (\<lambda>kv r. Call (MAGIC_WORD_sub (snd kv)) lng (Some r)) (queued c d) rs" and
    written: "fs w' = (fs w)(out_path source lng \<mapsto>
            YMap (sort_key fst (d @ zip (map fst (queued c d)) (map MAGIC_WORD_sub rs))))"
    by blast
  let ?new = "zip (map fst (queued c d)) (map MAGIC_WORD_sub rs)"
  have dist: "distinct (map fst (sort_key fst (d @ ?new)))"
    using merged_distinct [OF load_out_yaml_distinct [OF old [unfolded PyDict]] dict,
        of "map MAGIC_WORD_sub rs"] len
    by (simp add: distinct_keys_sort_key)
  have nofile: "fs w (out_path source lng) = None \<longrightarrow> queued c d = c"
    using old PyDict by (auto simp: load_out_yaml_def queued_def)
  show ?thesis
    using len new_calls_append [OF cs] written dist nofile
    by (intro exI [of _ rs] exI [of _ "YMap (sort_key fst (d @ ?new))"]) (simp add: PyDict)
qed

theorem merged_target_witness:
  "\<exists>rs doc. length rs = length (queued example_source (pyval_entries (PyDict example_target))) \<and>
     new_calls example_world example_after =
       map2 (\<lambda>kv r. Call (MAGIC_WORD_sub (snd kv)) ''fr'' (Some r))
         (queued example_source (pyval_entries (PyDict example_target))) rs \<and>
     fs example_after (out_path ''dir/strings.yml'' ''fr'') = Some doc \<and>
     set (doc_entries doc) = set (pyval_entries (PyDict example_target)) \<union>
       set (zip (map fst (queued example_source (pyval_entries (PyDict example_target))))
              (map MAGIC_WORD_sub rs)) \<and>
     distinct (map fst (doc_entries doc)) \<and>
     (fs example_world (out_path ''dir/strings.yml'' ''fr'') = None \<longrightarrow>
        queued example_source (pyval_entries (PyDict example_target)) = example_source)"
  by (rule merged_target [OF example_run example_old example_dict])

subsection \<open>Sorted dumps, null targets and failing calls\<close>

lemma translate_lang_writes:
  assumes run: "translate_lang t contents source lng w = (None, w')"
  shows "\<exists>v. fs w' (out_path source lng) = Some (yaml_dump v)"
proof -
  from run obtain out_yaml where old: "load_out_yaml w (out_path source lng) = Inr out_yaml"
    by (cases "load_out_yaml w (out_path source lng)") (auto simp: translate_lang_def)
  from run old obtain kvs where items: "py_items contents = Inr kvs"
    by (cases "py_items contents") (auto simp: translate_lang_def)
  obtain r w1 where tk: "translate_keys t kvs out_yaml (new_ValueToHashtag lng) [] w = (r, w1)"
    by (cases "translate_keys t kvs out_yaml (new_ValueToHashtag lng) [] w")
  from run old items tk obtain h ks where r: "r = Inr (h, ks)"
    by (cases r) (auto simp: translate_lang_def)
  from run old items tk r obtain v where
    "merge_lines (zip ks (get_lines h)) out_yaml = Inr v"
    by (cases "merge_lines (zip ks (get_lines h)) out_yaml") (auto simp: translate_lang_def)
  with run old items tk r show ?thesis
    by (auto simp: translate_lang_def)
qed

lemma sorted_dump: "sorted (map fst (doc_entries (yaml_dump v)))"
  by (cases v) simp_all

text \<open>
  C9: the file that a language's step writes lists its keys in sorted order, whatever the
  order of the source's items and the order in which the target map received its
  entries: the dump sorts.
\<close>

theorem written_keys_sorted:
  assumes run: "translate_lang t contents source lng w = (None, w')"
  shows "\<exists>doc. fs w' (out_path source lng) = Some doc \<and> sorted (map fst (doc_entries doc))"
proof -
  from translate_lang_writes [OF run] obtain v where
    "fs w' (out_path source lng) = Some (yaml_dump v)"
    by blast
  then show ?thesis
    using sorted_dump [of v] by simp
qed

theorem written_keys_sorted_witness:
  "\<exists>doc. fs example_after (out_path ''dir/strings.yml'' ''fr'') = Some doc \<and>
     sorted (map fst (doc_entries doc))"
  by (rule written_keys_sorted [OF example_run])

text \<open>
  C10, as the script has it: when the target file holds the null document and the source
  has at least one item, the membership test of the first item raises \<open>TypeError\<close>; the
  run ends there, no call has been made and no file has been written. With a source that
  has no item there is no membership test, and the run goes on.
\<close>

theorem null_target_aborts:
  assumes "fs w (out_path source lng) = Some YNull" and "c \<noteq> []"
  shows "translate_langs t (PyDict c) source (lng # langs) w = (Some TypeError, w)"
proof -
  from assms(1) have "load_out_yaml w (out_path source lng) = Inr PyNone"
    by (simp add: load_out_yaml_def)
  from translate_lang_PyNone [OF this, of t c] assms(2) show ?thesis
    by simp
qed

theorem null_target_aborts_witness:
  "translate_langs echo_backend (PyDict [(''k'', ''v'')]) ''dir/strings.yml'' (''fr'' # [''de''])
     null_target_world = (Some TypeError, null_target_world)"
proof -
  have "fs null_target_world (out_path ''dir/strings.yml'' ''fr'') = Some YNull"
    by (simp add: null_target_world_def example_out_path)
  moreover have "[(''k'', ''v'')] \<noteq> ([] :: (string \<times> string) list)"
    by simp
  ultimately show ?thesis
    by (rule null_target_aborts)
qed

text \<open>
  The claim C10 as it is written fails on a source without items: the target file holds
  the null document, and the run ends without an exception.
\<close>

theorem null_target_empty_source:
  "fs null_world (out_path ''dir/strings.yml'' ''fr'') = Some YNull \<and>
   translate echo_backend ''dir/strings.yml'' [''fr''] null_world =
     (None, null_world\<lparr>stdout := [''fr complete'']\<rparr>)"
  by (simp add: null_world_def run_defs)

lemma translate_langs_abort:
  "translate_langs t contents source langs w = (Some e, w') \<Longrightarrow>
   \<exists>pre lng post w1. langs = pre @ lng # post \<and>
      translate_langs t contents source pre w = (None, w1) \<and>
      translate_lang t contents source lng w1 = (Some e, w')"
proof (induction langs arbitrary: w)
  case Nil
  then show ?case by simp
next
  case (Cons l langs)
  obtain r w1 where step: "translate_lang t contents source l w = (r, w1)"
    by (cases "translate_lang t contents source l w")
  show ?case
  proof (cases r)
    case (Some e1)
    with Cons.prems step have "e1 = e" "w1 = w'" by simp_all
    with step Some show ?thesis
      by (intro exI [of _ "[]"] exI [of _ l] exI [of _ langs] exI [of _ w]) simp
  next
    case None
    with Cons.prems step have "translate_langs t contents source langs w1 = (Some e, w')"
      by simp
    from Cons.IH [OF this] obtain pre lng post w2 where
      "langs = pre @ lng # post" "translate_langs t contents source pre w1 = (None, w2)"
      "translate_lang t contents source lng w2 = (Some e, w')"
      by blast
    with step None show ?thesis
      by (intro exI [of _ "l # pre"] exI [of _ lng] exI [of _ post] exI [of _ w2]) simp
  qed
qed

text \<open>
  When a run ends with the exception of a backend call, the file system it leaves is the
  one that a complete run over the languages before the one in progress leaves, and the
  last call in the log is the call that raised.
\<close>

lemma abort_leaves_earlier_files:
  assumes run: "translate t source langs w = (Some TranslateError, w')"
  shows "\<exists>pre lng post w1. langs = pre @ lng # post \<and>
     translate t source pre w = (None, w1) \<and>
     fs w' = fs w1 \<and>
     (\<exists>hist text. calls w' = hist @ [Call text lng None])"
proof -
  from run obtain doc where src: "fs w source = Some doc"
    by (cases "fs w source") (auto simp: translate_def)
  from run src obtain contents where load: "yaml_load doc = Inr contents"
    by (cases doc) (auto simp: translate_def)
  from run src load have "translate_langs t contents source langs w = (Some TranslateError, w')"
    by (simp add: translate_def)
  from translate_langs_abort [OF this] obtain pre lng post w1 where
    split: "langs = pre @ lng # post" and
    before: "translate_langs t contents source pre w = (None, w1)" and
    step: "translate_lang t contents source lng w1 = (Some TranslateError, w')"
    by blast
  from before src load have "translate t source pre w = (None, w1)"
    by (simp add: translate_def)
  moreover from translate_lang_err [OF step]
  have "fs w' = fs w1" "\<exists>hist text. calls w' = hist @ [Call text lng None]"
    by auto
  ultimately show ?thesis
    using split by blast
qed

lemma example_failed_run:
  "translate picky_backend ''dir/strings.yml'' [''fr'', ''xx''] example_world =
     (Some TranslateError, example_failed)"
  by (simp add: example_world_def example_failed_def example_source_def example_target_def
      picky_backend_def run_defs)

lemma ask_all_None_last:
  "Call s l None \<in> set (ask_all t hist lng ss) \<Longrightarrow>
   last (ask_all t hist lng ss) = Call s l None \<and> l = lng"
proof (induction ss arbitrary: hist)
  case Nil
  then show ?case by simp
next
  case (Cons x ss)
  show ?case
  proof (cases "t hist x lng")
    case None
    with Cons.prems show ?thesis by simp
  next
    case (Some r)
    with Cons.prems have mem: "Call s l None \<in> set (ask_all t (hist @ [Call x lng (Some r)]) lng ss)"
      by simp
    then have "ask_all t (hist @ [Call x lng (Some r)]) lng ss \<noteq> []"
      by auto
    with Cons.IH [OF mem] Some show ?thesis by simp
  qed
qed

text \<open>
  The loop over the items makes the calls of \<open>ask_all\<close> for the queued values, and it
  ends with an exception exactly when one of them raised.
\<close>

lemma translate_keys_ask:
  "translate_keys t kvs (PyDict d) h tk w = (r, w') \<Longrightarrow>
   calls w' = calls w @
     ask_all t (calls w) (lang h) (map (\<lambda>kv. MAGIC_WORD_sub (snd kv)) (queued kvs d)) \<and>
   (isl r \<longleftrightarrow>
     (\<exists>c\<in>set (ask_all t (calls w) (lang h) (map (\<lambda>kv. MAGIC_WORD_sub (snd kv)) (queued kvs d))).
        call_reply c = None))"
proof (induction kvs arbitrary: h tk w)
  case Nil
  then show ?case by auto
next
  case (Cons kv kvs)
  obtain k v where kv: "kv = (k, v)" by (cases kv)
  show ?case
  proof (cases "k \<in> set (map fst d)")
    case True
    with Cons.prems kv have "translate_keys t kvs (PyDict d) h tk w = (r, w')"
      by simp
    from Cons.IH [OF this] True kv show ?thesis
      by (simp add: queued_Cons)
  next
    case False
    show ?thesis
    proof (cases "t (calls w) (MAGIC_WORD_sub v) (lang h)")
      case None
      with Cons.prems kv False have "r = Inl TranslateError"
        "w' = w\<lparr>calls := calls w @ [Call (MAGIC_WORD_sub v) (lang h) None]\<rparr>"
        by (simp_all add: value_to_hashtag_def Let_def)
      with None kv False show ?thesis
        by (simp add: queued_Cons)
    next
      case (Some out)
      let ?c = "Call (MAGIC_WORD_sub v) (lang h) (Some out)"
      let ?w1 = "w\<lparr>calls := calls w @ [?c], stdout := stdout w @ [out]\<rparr>"
      from Cons.prems kv False Some
      have "translate_keys t kvs (PyDict d) (h\<lparr>lines := lines h @ [out]\<rparr>) (tk @ [k]) ?w1 = (r, w')"
        by (simp add: value_to_hashtag_def Let_def)
      from Cons.IH [OF this] Some kv False show ?thesis
        by (simp add: queued_Cons)
    qed
  qed
qed

lemma translate_lang_ask:
  assumes run: "translate_lang t (PyDict c) source lng w = (res, w')"
    and old: "load_out_yaml w (out_path source lng) = Inr (PyDict d)"
  shows "calls w' = calls w @
       ask_all t (calls w) lng (map (\<lambda>kv. MAGIC_WORD_sub (snd kv)) (queued c d)) \<and>
     (res = Some TranslateError \<longleftrightarrow>
       (\<exists>c\<in>set (ask_all t (calls w) lng (map (\<lambda>kv. MAGIC_WORD_sub (snd kv)) (queued c d))).
          call_reply c = None)) \<and>
     (res = Some TranslateError \<longrightarrow> fs w' = fs w)"
proof -
  obtain r w1 where tk: "translate_keys t c (PyDict d) (new_ValueToHashtag lng) [] w = (r, w1)"
    by (cases "translate_keys t c (PyDict d) (new_ValueToHashtag lng) [] w")
  from translate_keys_ask [OF tk] have
    cs: "calls w1 = calls w @
       ask_all t (calls w) lng (map (\<lambda>kv. MAGIC_WORD_sub (snd kv)) (queued c d))" and
    raised: "isl r \<longleftrightarrow>
       (\<exists>c\<in>set (ask_all t (calls w) lng (map (\<lambda>kv. MAGIC_WORD_sub (snd kv)) (queued c d))).
          call_reply c = None)"
    by (simp_all add: new_ValueToHashtag_def)
  show ?thesis
  proof (cases r)
    case (Inl e)
    from translate_keys_err [OF tk [unfolded Inl]] have e: "e = TranslateError" and "fs w1 = fs w"
      by auto
    moreover from run old tk Inl have "res = Some e" "w' = w1"
      by (simp_all add: translate_lang_def)
    ultimately show ?thesis
      using cs raised Inl by simp
  next
    case (Inr b)
    obtain h ks where b: "b = (h, ks)" by (cases b)
    obtain d' where "merge_lines (zip ks (get_lines h)) (PyDict d) = Inr (PyDict d')"
      using merge_lines_PyDict by blast
    with run old tk Inr b have "res = None" "calls w' = calls w1"
      by (auto simp: translate_lang_def)
    with cs raised Inr show ?thesis by simp
  qed
qed

lemma translate_langs_append:
  "translate_langs t contents source pre w = (None, w1) \<Longrightarrow>
   translate_langs t contents source (pre @ rest) w = translate_langs t contents source rest w1"
proof (induction pre arbitrary: w)
  case Nil
  then show ?case by simp
next
  case (Cons l pre)
  obtain r w0 where step: "translate_lang t contents source l w = (r, w0)"
    by (cases "translate_lang t contents source l w")
  with Cons.prems have r: "r = None" and "translate_langs t contents source pre w0 = (None, w1)"
    by (cases r; simp)+
  from Cons.IH [OF this(2)] step r show ?case by simp
qed

text \<open>
  C7: let the languages before \<open>lng\<close> be processed without an exception, leaving the
  world \<open>w1\<close>, and let a call raise among those that the backend is asked for the queued
  values of \<open>lng\<close>. Then the run over these languages, \<open>lng\<close> and any further languages
  ends with the exception of the backend call; the file system it leaves is that of
  \<open>w1\<close>, so the file of \<open>lng\<close> is not written and the files written before are as they
  were; the calls made for \<open>lng\<close> stop at the one that raised, which is the last call of
  the log; and the languages after \<open>lng\<close> play no part.
\<close>

theorem backend_failure_aborts:
  assumes src: "fs w source = Some doc" "yaml_load doc = Inr (PyDict c)"
    and before: "translate t source pre w = (None, w1)"
    and old: "load_out_yaml w1 (out_path source lng) = Inr (PyDict d)"
    and failed: "Call text l None \<in>
      set (ask_all t (calls w1) lng (map (\<lambda>kv. MAGIC_WORD_sub (snd kv)) (queued c d)))"
  shows "\<exists>w2. translate t source (pre @ lng # post) w = (Some TranslateError, w2) \<and>
     fs w2 = fs w1 \<and>
     calls w2 = calls w1 @
       ask_all t (calls w1) lng (map (\<lambda>kv. MAGIC_WORD_sub (snd kv)) (queued c d)) \<and>
     last (calls w2) = Call text lng None"
proof -
  let ?asked = "ask_all t (calls w1) lng (map (\<lambda>kv. MAGIC_WORD_sub (snd kv)) (queued c d))"
  from before src have loop: "translate_langs t (PyDict c) source pre w = (None, w1)"
    by (simp add: translate_def)
  obtain res w2 where step: "translate_lang t (PyDict c) source lng w1 = (res, w2)"
    by (cases "translate_lang t (PyDict c) source lng w1")
  from failed have "\<exists>c\<in>set ?asked. call_reply c = None"
    by force
  with translate_lang_ask [OF step old] have
    res: "res = Some TranslateError" and files: "fs w2 = fs w1" and cs: "calls w2 = calls w1 @ ?asked"
    by simp_all
  from failed have "?asked \<noteq> []" by auto
  with ask_all_None_last [OF failed] cs have "last (calls w2) = Call text lng None"
    by simp
  moreover have "translate t source (pre @ lng # post) w = (Some TranslateError, w2)"
    using src translate_langs_append [OF loop, of "lng # post"] step res
    by (simp add: translate_def)
  ultimately show ?thesis
    using files cs by blast
qed

lemma flaky_first:
  "translate flaky_backend ''dir/strings.yml'' [''fr''] example_world = (None, example_after)"
  by (simp add: example_world_def example_after_def example_source_def example_target_def
      flaky_backend_def run_defs)

lemma flaky_asked:
  "ask_all flaky_backend (calls example_after) ''xx''
     (map (\<lambda>kv. MAGIC_WORD_sub (snd kv)) (queued example_source [])) =
   [Call ''x {} y'' ''xx'' (Some ''x {} y''), Call ''p @ q'' ''xx'' None]"
  by (simp add: example_after_def example_source_def queued_def flaky_backend_def)

theorem backend_failure_aborts_witness:
  "(\<exists>w2. translate flaky_backend ''dir/strings.yml'' ([''fr''] @ ''xx'' # [''de'']) example_world =
       (Some TranslateError, w2) \<and>
     fs w2 = fs example_after \<and>
     calls w2 = calls example_after @
       ask_all flaky_backend (calls example_after) ''xx''
         (map (\<lambda>kv. MAGIC_WORD_sub (snd kv)) (queued example_source [])) \<and>
     last (calls w2) = Call ''p @ q'' ''xx'' None) \<and>
   translate flaky_backend ''dir/strings.yml'' [''fr'', ''xx'', ''de''] example_world =
     (Some TranslateError, flaky_failed)"
proof -
  have src: "fs example_world ''dir/strings.yml'' = Some (YMap example_source)"
    "yaml_load (YMap example_source) = Inr (PyDict example_source)"
    by (simp_all add: example_world_def example_source_def dict_of_entries_def)
  have old: "load_out_yaml example_after (out_path ''dir/strings.yml'' ''xx'') = Inr (PyDict [])"
    by (simp add: example_after_def run_defs)
  have failed: "Call ''p @ q'' ''xx'' None \<in>
      set (ask_all flaky_backend (calls example_after) ''xx''
        (map (\<lambda>kv. MAGIC_WORD_sub (snd kv)) (queued example_source [])))"
    by (simp add: flaky_asked)
  have "translate flaky_backend ''dir/strings.yml'' [''fr'', ''xx'', ''de''] example_world =
     (Some TranslateError, flaky_failed)"
    by (simp add: example_world_def flaky_failed_def example_source_def example_target_def
        flaky_backend_def run_defs)
  with backend_failure_aborts [OF src flaky_first old failed, of "[''de'']"] show ?thesis
    by (rule conjI)
qed

subsection \<open>The target path\<close>

lemma rstrip_sep_shape: "rstrip_sep h = [] \<or> last (rstrip_sep h) \<noteq> CHR ''/''"
proof (cases "dropWhile (\<lambda>c. c = CHR ''/'') (rev h)")
  case Nil
  then show ?thesis by (simp add: rstrip_sep_def)
next
  case (Cons y ys)
  then have "y \<noteq> CHR ''/''"
    by (simp add: dropWhile_eq_Cons_conv)
  moreover from Cons have "rstrip_sep h = rev ys @ [y]"
    by (simp add: rstrip_sep_def)
  ultimately show ?thesis by simp
qed

lemma dirname_shape:
  "dirname p = [] \<or> list_all (\<lambda>c. c = CHR ''/'') (dirname p) \<or> last (dirname p) \<noteq> CHR ''/''"
proof -
  define h where "h = rev (dropWhile (\<lambda>c. c \<noteq> CHR ''/'') (rev p))"
  have d: "dirname p =
      (if h \<noteq> [] \<and> \<not> list_all (\<lambda>c. c = CHR ''/'') h then rstrip_sep h else h)"
    by (simp add: dirname_def h_def Let_def)
  show ?thesis
  proof (cases "h \<noteq> [] \<and> \<not> list_all (\<lambda>c. c = CHR ''/'') h")
    case True
    then have "dirname p = rstrip_sep h"
      unfolding d by (rule if_P)
    with rstrip_sep_shape [of h] show ?thesis
      by (simp only:) blast
  next
    case False
    then have "dirname p = h"
      unfolding d by (rule if_not_P)
    with False show ?thesis
      by (simp only:) blast
  qed
qed

lemma head_append:
  assumes "CHR ''/'' \<notin> set b" "x = [] \<or> last x = CHR ''/''"
  shows "rev (dropWhile (\<lambda>c. c \<noteq> CHR ''/'') (rev (x @ b))) = x"
proof -
  have "dropWhile (\<lambda>c. c \<noteq> CHR ''/'') (rev b @ rev x) = dropWhile (\<lambda>c. c \<noteq> CHR ''/'') (rev x)"
    using assms(1) by (intro dropWhile_append2) auto
  also have "\<dots> = rev x"
    using assms(2) by (cases x rule: rev_cases) auto
  finally show ?thesis by simp
qed

lemma dirname_append:
  assumes "CHR ''/'' \<notin> set b" "x = [] \<or> last x = CHR ''/''"
  shows "dirname (x @ b) =
    (if x \<noteq> [] \<and> \<not> list_all (\<lambda>c. c = CHR ''/'') x then rstrip_sep x else x)"
  using head_append [OF assms] by (simp add: dirname_def Let_def)

lemma basename_append:
  assumes "CHR ''/'' \<notin> set b" "x = [] \<or> last x = CHR ''/''"
  shows "basename (x @ b) = b"
proof -
  have "takeWhile (\<lambda>c. c \<noteq> CHR ''/'') (rev b @ rev x) = rev b @ takeWhile (\<lambda>c. c \<noteq> CHR ''/'') (rev x)"
    using assms(1) by (intro takeWhile_append2) auto
  moreover have "takeWhile (\<lambda>c. c \<noteq> CHR ''/'') (rev x) = []"
    using assms(2) by (cases x rule: rev_cases) auto
  ultimately show ?thesis by (simp add: basename_def)
qed

lemma rstrip_sep_snoc:
  "d \<noteq> [] \<Longrightarrow> last d \<noteq> CHR ''/'' \<Longrightarrow> rstrip_sep (d @ ''/'') = d"
  by (cases d rule: rev_cases) (auto simp: rstrip_sep_def)

text \<open>
  C1, as the script has it: the file of a language is \<open>join\<close> of the source's directory
  and the language followed by \<open>.yaml\<close>, whatever the extension of the source. When the
  language has no \<open>/\<close> in it, the directory of that path is the directory of the source
  and its file name is the language followed by \<open>.yaml\<close>.
\<close>

theorem out_path_beside_source:
  assumes "CHR ''/'' \<notin> set lng"
  shows "out_path source lng = path_join (dirname source) (lng @ ''.yaml'') \<and>
     dirname (out_path source lng) = dirname source \<and>
     basename (out_path source lng) = lng @ ''.yaml''"
proof -
  let ?d = "dirname source" and ?b = "lng @ ''.yaml''"
  have b: "CHR ''/'' \<notin> set ?b" using assms by simp
  have nohd: "\<not> (?b \<noteq> [] \<and> hd ?b = CHR ''/'')"
    using assms by (cases lng) auto
  show ?thesis
  proof (cases "?d = [] \<or> last ?d = CHR ''/''")
    case True
    then have join: "path_join ?d ?b = ?d @ ?b"
      using nohd by (simp only: path_join_def if_True if_False)
    have "?d = [] \<or> list_all (\<lambda>c. c = CHR ''/'') ?d"
      using True dirname_shape [of source] by blast
    then have "dirname (?d @ ?b) = ?d"
      using dirname_append [OF b True] by auto
    moreover have "basename (?d @ ?b) = ?b"
      by (rule basename_append [OF b True])
    ultimately show ?thesis
      by (simp only: out_path_def join simp_thms)
  next
    case False
    then have join: "path_join ?d ?b = (?d @ ''/'') @ ?b"
      using nohd by (simp only: path_join_def if_True if_False append_assoc)
    have x: "?d @ ''/'' = [] \<or> last (?d @ ''/'') = CHR ''/''" by simp
    have "\<not> list_all (\<lambda>c. c = CHR ''/'') (?d @ ''/'')"
      using False by (cases ?d rule: rev_cases) auto
    then have "dirname ((?d @ ''/'') @ ?b) = rstrip_sep (?d @ ''/'')"
      using dirname_append [OF b x] by simp
    also have "\<dots> = ?d"
      using False by (intro rstrip_sep_snoc) auto
    finally have "dirname ((?d @ ''/'') @ ?b) = ?d" .
    moreover have "basename ((?d @ ''/'') @ ?b) = ?b"
      by (rule basename_append [OF b x])
    ultimately show ?thesis
      by (simp only: out_path_def join simp_thms)
  qed
qed

theorem out_path_beside_source_witness:
  "out_path ''dir/strings.yml'' ''fr'' = path_join (dirname ''dir/strings.yml'') (''fr'' @ ''.yaml'') \<and>
   dirname (out_path ''dir/strings.yml'' ''fr'') = dirname ''dir/strings.yml'' \<and>
   basename (out_path ''dir/strings.yml'' ''fr'') = ''fr'' @ ''.yaml''"
proof -
  have "CHR ''/'' \<notin> set ''fr''" by simp
  then show ?thesis by (rule out_path_beside_source)
qed

text \<open>
  The claim C1 as it is written fails on its own example: the source \<open>dir/strings.yml\<close>
  and the language \<open>fr\<close> give \<open>dir/fr.yaml\<close>, not \<open>dir/fr.yml\<close>. And a language that
  starts with \<open>/\<close> gives a path outside the directory of the source.
\<close>

theorem out_path_extension_fixed:
  "out_path ''dir/strings.yml'' ''fr'' = ''dir/fr.yaml'' \<and>
   out_path ''dir/strings.yml'' ''fr'' \<noteq> ''dir/fr.yml'' \<and>
   out_path ''dir/strings.yml'' ''/tmp/fr'' = ''/tmp/fr.yaml''"
  by (simp add: out_path_def dirname_def path_join_def rstrip_sep_def)

subsection \<open>Markers and placeholders through a run\<close>

lemma sub_append_not_at:
  "c \<noteq> CHR ''@'' \<Longrightarrow> MAGIC_WORD_sub (a @ c # b) = MAGIC_WORD_sub a @ c # MAGIC_WORD_sub b"
proof (induction a rule: MAGIC_WORD_sub.induct)
  case 1
  then show ?case by (simp add: sub_not_at)
next
  case (2 x)
  then show ?case by (simp add: sub_not_at)
next
  case (3 x y zs)
  show ?case
  proof (cases "x = CHR ''@'' \<and> y = CHR ''@''")
    case True
    have "dropWhile (\<lambda>x. x = CHR ''@'') (zs @ c # b) = dropWhile (\<lambda>x. x = CHR ''@'') zs @ c # b"
      using "3.prems" by (intro dropWhile_append3) simp
    with True "3.IH"(1) "3.prems" show ?thesis by simp
  next
    case False
    with "3.IH"(2) "3.prems" show ?thesis by auto
  qed
qed

lemma sub_run:
  assumes "2 \<le> m" "post = [] \<or> hd post \<noteq> CHR ''@''"
  shows "MAGIC_WORD_sub (replicate m CHR ''@'' @ post) = ''{}'' @ MAGIC_WORD_sub post"
proof -
  from assms(1) obtain n where m: "m = Suc (Suc n)"
    by (metis Suc_le_D numeral_2_eq_2 Suc_le_mono)
  have "dropWhile (\<lambda>x. x = CHR ''@'') (replicate n CHR ''@'' @ post) =
      dropWhile (\<lambda>x. x = CHR ''@'') post"
    by (intro dropWhile_append2) simp
  also have "\<dots> = post"
    using assms(2) by (cases post) auto
  finally show ?thesis by (simp add: m)
qed

lemma sub_maximal_run:
  assumes "2 \<le> m" "pre = [] \<or> last pre \<noteq> CHR ''@''" "post = [] \<or> hd post \<noteq> CHR ''@''"
  shows "MAGIC_WORD_sub (pre @ replicate m CHR ''@'' @ post) =
     MAGIC_WORD_sub pre @ ''{}'' @ MAGIC_WORD_sub post"
proof (cases pre rule: rev_cases)
  case Nil
  with sub_run [OF assms(1,3)] show ?thesis by simp
next
  case (snoc ys y)
  with assms(2) have y: "y \<noteq> CHR ''@''" by simp
  have "MAGIC_WORD_sub (ys @ y # (replicate m CHR ''@'' @ post)) =
      MAGIC_WORD_sub ys @ y # MAGIC_WORD_sub (replicate m CHR ''@'' @ post)"
    using y by (rule sub_append_not_at)
  moreover have "MAGIC_WORD_sub (ys @ y # []) = MAGIC_WORD_sub ys @ y # MAGIC_WORD_sub []"
    using y by (rule sub_append_not_at)
  ultimately show ?thesis
    using sub_run [OF assms(1,3)] snoc by simp
qed

lemma has_placeholder_Cons: "has_placeholder s \<Longrightarrow> has_placeholder (c # s)"
  by (simp add: has_placeholder_def sublist_Cons_right)

lemma marker_gives_placeholder: "has_marker s \<Longrightarrow> has_placeholder (MAGIC_WORD_sub s)"
proof (induction s rule: MAGIC_WORD_sub.induct)
  case 1
  then show ?case by simp
next
  case (2 c)
  then show ?case by (simp add: has_marker_Cons)
next
  case (3 c d cs)
  show ?case
  proof (cases "c = CHR ''@'' \<and> d = CHR ''@''")
    case True
    have "has_placeholder (''{}'' @ MAGIC_WORD_sub (dropWhile (\<lambda>x. x = CHR ''@'') cs))"
      unfolding has_placeholder_def by (rule sublist_append_rightI)
    with True show ?thesis by simp
  next
    case False
    with "3.prems" have "has_marker (d # cs)"
      by (auto simp: has_marker_Cons)
    with "3.IH"(2) False have "has_placeholder (MAGIC_WORD_sub (d # cs))"
      by blast
    then have "has_placeholder (c # MAGIC_WORD_sub (d # cs))"
      by (rule has_placeholder_Cons)
    with False show ?thesis by auto
  qed
qed

lemma placeholder_kept: "has_placeholder s \<Longrightarrow> has_placeholder (MAGIC_WORD_sub s)"
proof -
  assume "has_placeholder s"
  then obtain a b where s: "s = a @ ''{}'' @ b"
    by (auto simp: has_placeholder_def sublist_def)
  have "MAGIC_WORD_sub (a @ CHR ''{'' # (CHR ''}'' # b)) =
      MAGIC_WORD_sub a @ CHR ''{'' # MAGIC_WORD_sub (CHR ''}'' # b)"
    by (rule sub_append_not_at) simp
  also have "MAGIC_WORD_sub (CHR ''}'' # b) = CHR ''}'' # MAGIC_WORD_sub b"
    by (rule sub_not_at) simp
  finally have "MAGIC_WORD_sub s = MAGIC_WORD_sub a @ ''{}'' @ MAGIC_WORD_sub b"
    by (simp add: s)
  moreover have "sublist ''{}'' (MAGIC_WORD_sub a @ ''{}'' @ MAGIC_WORD_sub b)"
    by (rule sublist_appendI)
  ultimately show ?thesis
    by (simp only: has_placeholder_def)
qed

lemma no_marker_around_placeholder:
  "\<not> has_marker (MAGIC_WORD_sub pre @ ''{}'' @ MAGIC_WORD_sub post)"
proof -
  have "MAGIC_WORD_sub (pre @ CHR ''{'' # (CHR ''}'' # post)) =
      MAGIC_WORD_sub pre @ CHR ''{'' # MAGIC_WORD_sub (CHR ''}'' # post)"
    by (rule sub_append_not_at) simp
  also have "MAGIC_WORD_sub (CHR ''}'' # post) = CHR ''}'' # MAGIC_WORD_sub post"
    by (rule sub_not_at) simp
  finally have "MAGIC_WORD_sub pre @ ''{}'' @ MAGIC_WORD_sub post =
      MAGIC_WORD_sub (pre @ ''{}'' @ post)"
    by simp
  then show ?thesis
    by (simp only: sub_no_marker not_False_eq_True)
qed

text \<open>
  C2, as the script has it. A marker is a run of two or more \<open>@\<close>; a lone \<open>@\<close> is not one
  and is copied. Take a source item whose key the target map does not have and whose
  value has a run of two or more \<open>@\<close> that no \<open>@\<close> extends on either side. When the
  language's step ends without an exception, a call was made whose text has \<open>{}\<close> in the
  place of the run and no two adjacent \<open>@\<close>; the file gives for the key the reply of that
  call with its own runs replaced, in which no two \<open>@\<close> are adjacent, whatever the
  backend replied; and that value has a \<open>{}\<close> whenever the reply has a \<open>{}\<close> or a run.
\<close>

theorem marker_round_trip:
  assumes run: "translate_lang t (PyDict c) source lng w = (None, w')"
    and old: "load_out_yaml w (out_path source lng) = Inr (PyDict d)"
    and dict: "distinct (map fst c)"
    and item: "(k, pre @ replicate m CHR ''@'' @ post) \<in> set c"
    and absent: "k \<notin> set (map fst d)"
    and m: "2 \<le> m"
    and pre: "pre = [] \<or> last pre \<noteq> CHR ''@''"
    and post: "post = [] \<or> hd post \<noteq> CHR ''@''"
  shows "\<exists>r doc.
     Call (MAGIC_WORD_sub pre @ ''{}'' @ MAGIC_WORD_sub post) lng (Some r) \<in> set (new_calls w w') \<and>
     \<not> has_marker (MAGIC_WORD_sub pre @ ''{}'' @ MAGIC_WORD_sub post) \<and>
     fs w' (out_path source lng) = Some doc \<and>
     doc_lookup doc k = Some (MAGIC_WORD_sub r) \<and>
     \<not> has_marker (MAGIC_WORD_sub r) \<and>
     (has_marker r \<or> has_placeholder r \<longrightarrow> has_placeholder (MAGIC_WORD_sub r))"
proof -
  let ?v = "pre @ replicate m CHR ''@'' @ post"
  from item absent have "(k, ?v) \<in> set (queued c d)"
    by (simp add: queued_def)
  then obtain n where n: "n < length (queued c d)" and nth: "queued c d ! n = (k, ?v)"
    by (auto simp: in_set_conv_nth)
  from step_replies [OF run old dict n] obtain rs doc where
    lrs: "length rs = length (queued c d)" and
    nc: "new_calls w w' =
      map2 (\<lambda>kv r. Call (MAGIC_WORD_sub (snd kv)) lng (Some r)) (queued c d) rs" and
    doc0: "fs w' (out_path source lng) = Some doc"
      "doc_lookup doc (fst (queued c d ! n)) = Some (MAGIC_WORD_sub (rs ! n))"
    by blast
  define r where "r = rs ! n"
  have len: "length (new_calls w w') = length (queued c d)"
    using lrs by (simp add: nc)
  have call: "new_calls w w' ! n = Call (MAGIC_WORD_sub (snd (queued c d ! n))) lng (Some r)"
    using n lrs by (simp add: nc r_def)
  have doc: "fs w' (out_path source lng) = Some doc"
    "doc_lookup doc (fst (queued c d ! n)) = Some (MAGIC_WORD_sub r)"
    using doc0 by (simp_all add: r_def)
  have "new_calls w w' ! n \<in> set (new_calls w w')"
    using n len by simp
  with call nth have "Call (MAGIC_WORD_sub ?v) lng (Some r) \<in> set (new_calls w w')"
    by simp
  then have "Call (MAGIC_WORD_sub pre @ ''{}'' @ MAGIC_WORD_sub post) lng (Some r)
      \<in> set (new_calls w w')"
    by (simp only: sub_maximal_run [OF m pre post])
  moreover have "has_marker r \<or> has_placeholder r \<longrightarrow> has_placeholder (MAGIC_WORD_sub r)"
    using marker_gives_placeholder placeholder_kept by blast
  moreover from doc nth have "doc_lookup doc k = Some (MAGIC_WORD_sub r)"
    by simp
  ultimately show ?thesis
    using doc(1) no_marker_around_placeholder [of pre post] sub_no_marker [of r]
    by blast
qed

theorem marker_round_trip_witness:
  "\<exists>r doc.
     Call (MAGIC_WORD_sub ''x '' @ ''{}'' @ MAGIC_WORD_sub '' y'') ''fr'' (Some r)
       \<in> set (new_calls example_world example_after) \<and>
     \<not> has_marker (MAGIC_WORD_sub ''x '' @ ''{}'' @ MAGIC_WORD_sub '' y'') \<and>
     fs example_after (out_path ''dir/strings.yml'' ''fr'') = Some doc \<and>
     doc_lookup doc ''b'' = Some (MAGIC_WORD_sub r) \<and>
     \<not> has_marker (MAGIC_WORD_sub r) \<and>
     (has_marker r \<or> has_placeholder r \<longrightarrow> has_placeholder (MAGIC_WORD_sub r))"
proof -
  have item: "(''b'', ''x '' @ replicate 2 CHR ''@'' @ '' y'') \<in> set example_source"
    by (simp add: example_source_def numeral_2_eq_2)
  have absent: "''b'' \<notin> set (map fst example_target)"
    by (simp add: example_target_def)
  have m: "(2::nat) \<le> 2" by simp
  have pre: "''x '' = [] \<or> last ''x '' \<noteq> CHR ''@''" by simp
  have post: "'' y'' = [] \<or> hd '' y'' \<noteq> CHR ''@''" by simp
  show ?thesis
    by (rule marker_round_trip [OF example_run example_old example_dict item absent m pre post])
qed

text \<open>
  The claim C2 as it is written fails on a run of length one: with a backend that
  returns the text it is given, the value \<open>a @ b\<close> is stored as it is, with its \<open>@\<close> and
  without any \<open>{}\<close>. It also fails on a longer run when the backend does not give the
  placeholder back: the text sent is \<open>x {} y\<close>, and what is stored is the reply.
\<close>

theorem lone_marker_kept:
  "translate echo_backend ''dir/strings.yml'' [''fr''] lone_world =
     (None, lone_world\<lparr>fs := (fs lone_world)(''dir/fr.yaml'' \<mapsto> YMap [(''k'', ''a @ b'')]),
        calls := [Call ''a @ b'' ''fr'' (Some ''a @ b'')],
        stdout := [''a @ b'', ''fr complete'']\<rparr>) \<and>
   \<not> has_placeholder ''a @ b'' \<and>
   translate deaf_backend ''dir/strings.yml'' [''fr''] marker_world =
     (None, marker_world\<lparr>fs := (fs marker_world)(''dir/fr.yaml'' \<mapsto> YMap [(''k'', ''bonjour'')]),
        calls := [Call ''x {} y'' ''fr'' (Some ''bonjour'')],
        stdout := [''bonjour'', ''fr complete'']\<rparr>) \<and>
   \<not> has_placeholder ''bonjour''"
  by (simp add: lone_world_def marker_world_def echo_backend_def deaf_backend_def run_defs
      has_placeholder_def sublist_code)

subsection \<open>A second run\<close>

lemma dict_of_entries_keys_image: "fst ` set (dict_of_entries es) = fst ` set es"
  using dict_of_entries_keys [of es] by simp

lemma translate_keys_all_present:
  "set (map fst kvs) \<subseteq> set (map fst d) \<Longrightarrow>
   translate_keys t kvs (PyDict d) h tk w = (Inr (h, tk), w)"
proof (induction kvs)
  case Nil
  show ?case by simp
next
  case (Cons kv kvs)
  obtain k v where kv: "kv = (k, v)" by (cases kv)
  from Cons.prems kv have "k \<in> set (map fst d)" "set (map fst kvs) \<subseteq> set (map fst d)"
    by auto
  with Cons.IH kv show ?case by simp
qed

text \<open>A step on a settled file changes nothing but the console.\<close>

lemma translate_lang_settled:
  assumes target: "fs w (out_path source lng) = Some doc"
    and settled: "settled (set (map fst c)) doc"
  shows "translate_lang t (PyDict c) source lng w =
     (None, w\<lparr>stdout := stdout w @ [lng @ '' complete'']\<rparr>)"
proof (cases doc)
  case YNull
  with settled have c: "c = []" by simp
  from target YNull have "load_out_yaml w (out_path source lng) = Inr PyNone"
    by (simp add: load_out_yaml_def)
  from translate_lang_PyNone [OF this, of t c] c target YNull show ?thesis
    by (simp add: map_upd_triv)
next
  case (YMap es)
  with settled have es: "sorted (map fst es)" "distinct (map fst es)"
    "set (map fst c) \<subseteq> set (map fst es)"
    by simp_all
  from target YMap es(2) have old: "load_out_yaml w (out_path source lng) = Inr (PyDict es)"
    by (simp add: load_out_yaml_def dict_of_entries_id)
  have keys: "translate_keys t c (PyDict es) (new_ValueToHashtag lng) [] w =
      (Inr (new_ValueToHashtag lng, []), w)"
    using es(3) by (rule translate_keys_all_present)
  have dump: "sort_key fst es = es"
    using es(1) by (rule sort_key_id_if_sorted)
  have same: "(fs w)(out_path source lng \<mapsto> YMap es) = fs w"
    using target YMap by (simp add: map_upd_triv)
  show ?thesis
    by (simp add: translate_lang_def old keys dump same)
next
  case YInvalid
  with settled show ?thesis by simp
qed

text \<open>What a step that ends normally leaves in its file.\<close>

lemma translate_lang_settles:
  assumes run: "translate_lang t (PyDict c) source lng w = (None, w')"
    and dict: "distinct (map fst c)"
  shows "\<exists>doc'. fs w' = (fs w)(out_path source lng \<mapsto> doc') \<and>
     settled (set (map fst c)) doc' \<and>
     (\<forall>es. fs w (out_path source lng) = Some (YMap es) \<longrightarrow>
        (\<exists>es'. doc' = YMap es' \<and> set (map fst es') = set (map fst es) \<union> set (map fst c)))"
proof -
  from run obtain out_yaml where old: "load_out_yaml w (out_path source lng) = Inr out_yaml"
    by (cases "load_out_yaml w (out_path source lng)") (auto simp: translate_lang_def)
  show ?thesis
  proof (cases out_yaml)
    case PyNone
    with run translate_lang_PyNone [of w source lng t c] old
    have c: "c = []" and w': "w' = w\<lparr>stdout := stdout w @ [lng @ '' complete''],
                               fs := (fs w)(out_path source lng \<mapsto> YNull)\<rparr>"
      by (auto split: if_splits)
    from old PyNone have "\<And>es. fs w (out_path source lng) \<noteq> Some (YMap es)"
      by (auto simp: load_out_yaml_def)
    with c w' show ?thesis
      by (intro exI [of _ YNull]) simp
  next
    case (PyDict d)
    from translate_lang_ok_dict [OF run old [unfolded PyDict] dict] obtain rs where
      len: "length rs = length (queued c d)" and
      written: "fs w' = (fs w)(out_path source lng \<mapsto>
            YMap (sort_key fst (d @ zip (map fst (queued c d)) (map MAGIC_WORD_sub rs))))"
      by blast
    let ?new = "zip (map fst (queued c d)) (map MAGIC_WORD_sub rs)"
    let ?es' = "sort_key fst (d @ ?new)"
    have keys_new: "map fst ?new = map fst (queued c d)"
      using len by (simp add: map_fst_zip)
    have dist: "distinct (map fst ?es')"
      using merged_distinct [OF load_out_yaml_distinct [OF old [unfolded PyDict]] dict,
          of "map MAGIC_WORD_sub rs"] len
      by (simp add: distinct_keys_sort_key)
    have "set (map fst ?es') = set (map fst d) \<union> set (map fst (queued c d))"
      using keys_new by (simp add: image_Un) (metis list.set_map)
    also have "\<dots> = set (map fst d) \<union> set (map fst c)"
      by (auto simp: queued_def)
    finally have keys: "set (map fst ?es') = set (map fst d) \<union> set (map fst c)" .
    have src: "\<forall>es. fs w (out_path source lng) = Some (YMap es) \<longrightarrow>
        set (map fst ?es') = set (map fst es) \<union> set (map fst c)"
    proof (intro allI impI)
      fix es
      assume "fs w (out_path source lng) = Some (YMap es)"
      with old PyDict have "d = dict_of_entries es"
        by (simp add: load_out_yaml_def)
      then have "set (map fst d) = set (map fst es)"
        by (simp only: dict_of_entries_keys)
      with keys show "set (map fst ?es') = set (map fst es) \<union> set (map fst c)"
        by (simp only:)
    qed
    have "settled (set (map fst c)) (YMap ?es')"
      using dist keys by simp
    with written src show ?thesis
      by (intro exI [of _ "YMap ?es'"]) blast
  qed
qed

lemma translate_lang_PyNone_contents:
  "translate_lang t PyNone source lng w \<noteq> (None, w')"
  by (cases "load_out_yaml w (out_path source lng)") (simp_all add: translate_lang_def)

text \<open>
  The loop over the languages, when it ends normally: the source keeps its keys, and the
  file of every language processed is settled.
\<close>

lemma translate_langs_settle:
  assumes "translate_langs t (PyDict c) source langs w = (None, w')"
    and "distinct (map fst c)"
    and "\<exists>es. fs w source = Some (YMap es) \<and> set (map fst es) = set (map fst c)"
    and "\<forall>p\<in>S. \<exists>doc. fs w p = Some doc \<and> settled (set (map fst c)) doc"
  shows "(\<exists>es. fs w' source = Some (YMap es) \<and> set (map fst es) = set (map fst c)) \<and>
     (\<forall>p\<in>S \<union> out_path source ` set langs.
        \<exists>doc. fs w' p = Some doc \<and> settled (set (map fst c)) doc)"
  using assms
proof (induction langs arbitrary: w S)
  case Nil
  then show ?case by simp
next
  case (Cons lng langs)
  let ?p = "out_path source lng"
  obtain r w1 where step: "translate_lang t (PyDict c) source lng w = (r, w1)"
    by (cases "translate_lang t (PyDict c) source lng w")
  with Cons.prems(1) have r: "r = None" and rest: "translate_langs t (PyDict c) source langs w1 = (None, w')"
    by (cases r; simp)+
  from translate_lang_settles [OF step [unfolded r] Cons.prems(2)] obtain doc' where
    w1: "fs w1 = (fs w)(?p \<mapsto> doc')" and
    settled: "settled (set (map fst c)) doc'" and
    keys: "\<forall>es. fs w ?p = Some (YMap es) \<longrightarrow>
        (\<exists>es'. doc' = YMap es' \<and> set (map fst es') = set (map fst es) \<union> set (map fst c))"
    by (elim exE conjE)
  from Cons.prems(3) obtain es where src: "fs w source = Some (YMap es)"
    "set (map fst es) = set (map fst c)"
    by blast
  have src1: "\<exists>es. fs w1 source = Some (YMap es) \<and> set (map fst es) = set (map fst c)"
  proof (cases "?p = source")
    case True
    with keys src obtain es' where "doc' = YMap es'"
      "set (map fst es') = set (map fst es) \<union> set (map fst c)"
      by metis
    with src(2) w1 True show ?thesis by simp
  next
    case False
    with w1 src show ?thesis by simp
  qed
  have done1: "\<forall>p\<in>insert ?p S. \<exists>doc. fs w1 p = Some doc \<and> settled (set (map fst c)) doc"
    using Cons.prems(4) w1 settled by simp
  from Cons.IH [OF rest Cons.prems(2) src1 done1] show ?case
    by simp
qed

text \<open>The loop over the languages when the file of every language is settled.\<close>

lemma translate_langs_settled:
  assumes "\<forall>p\<in>out_path source ` set langs. \<exists>doc. fs w p = Some doc \<and> settled (set (map fst c)) doc"
  shows "translate_langs t (PyDict c) source langs w =
     (None, w\<lparr>stdout := stdout w @ map (\<lambda>l. l @ '' complete'') langs\<rparr>)"
  using assms
proof (induction langs arbitrary: w)
  case Nil
  show ?case by simp
next
  case (Cons lng langs)
  from Cons.prems obtain doc where doc: "fs w (out_path source lng) = Some doc"
    "settled (set (map fst c)) doc"
    by auto
  let ?w1 = "w\<lparr>stdout := stdout w @ [lng @ '' complete'']\<rparr>"
  have step: "translate_lang t (PyDict c) source lng w = (None, ?w1)"
    using doc by (rule translate_lang_settled)
  have "\<forall>p\<in>out_path source ` set langs. \<exists>doc. fs ?w1 p = Some doc \<and> settled (set (map fst c)) doc"
    using Cons.prems by simp
  from Cons.IH [OF this] step show ?case by simp
qed

text \<open>
  C6: after a run that ended without an exception, a second run with the same source
  path and the same languages, with any backend, ends without an exception, adds no call
  to the log and leaves every file as it is; it only prints the languages again.
\<close>

theorem rerun_is_stable:
  assumes run: "translate t source langs w = (None, w1)"
  shows "translate t' source langs w1 =
       (None, w1\<lparr>stdout := stdout w1 @ map (\<lambda>l. l @ '' complete'') langs\<rparr>) \<and>
     new_calls w1 (snd (translate t' source langs w1)) = [] \<and>
     fs (snd (translate t' source langs w1)) = fs w1"
proof -
  from run obtain doc where src: "fs w source = Some doc"
    by (cases "fs w source") (auto simp: translate_def)
  from run src obtain contents where load: "yaml_load doc = Inr contents"
    by (cases doc) (auto simp: translate_def)
  from run src load have loop: "translate_langs t contents source langs w = (None, w1)"
    by (simp add: translate_def)
  have again: "translate t' source langs w1 =
       (None, w1\<lparr>stdout := stdout w1 @ map (\<lambda>l. l @ '' complete'') langs\<rparr>)"
  proof (cases langs)
    case Nil
    with loop have "w1 = w" by simp
    with Nil src load show ?thesis by (simp add: translate_def)
  next
    case (Cons lng rest)
    have "contents \<noteq> PyNone"
    proof
      assume "contents = PyNone"
      with loop Cons translate_lang_PyNone_contents [of t source lng w] show False
        by (cases "translate_lang t PyNone source lng w")
          (auto split: option.splits)
    qed
    then obtain c where c: "contents = PyDict c" by (cases contents) auto
    with load obtain es where es: "doc = YMap es" "c = dict_of_entries es"
      by (cases doc) auto
    have dict: "distinct (map fst c)"
      by (simp add: es(2) dict_of_entries_distinct)
    have src0: "\<exists>es. fs w source = Some (YMap es) \<and> set (map fst es) = set (map fst c)"
      using src es by (simp add: dict_of_entries_keys_image)
    have none: "\<forall>p\<in>{}. \<exists>doc. fs w p = Some doc \<and> settled (set (map fst c)) doc"
      by simp
    from translate_langs_settle [OF loop [unfolded c] dict src0 none]
    obtain es1 where src1: "fs w1 source = Some (YMap es1)"
      "set (map fst es1) = set (map fst c)"
      and all: "\<forall>p\<in>out_path source ` set langs.
        \<exists>doc. fs w1 p = Some doc \<and> settled (set (map fst c)) doc"
      by auto
    have "set (map fst (dict_of_entries es1)) = set (map fst c)"
      using src1(2) by (simp add: dict_of_entries_keys_image)
    with all have "\<forall>p\<in>out_path source ` set langs.
        \<exists>doc. fs w1 p = Some doc \<and> settled (set (map fst (dict_of_entries es1))) doc"
      by simp
    from translate_langs_settled [OF this, of t'] src1(1) show ?thesis
      by (simp add: translate_def)
  qed
  then show ?thesis
    by (simp add: new_calls_def)
qed

lemma example_first_run:
  "translate echo_backend ''dir/strings.yml'' [''fr''] example_world = (None, example_after)"
  by (simp add: example_world_def example_after_def example_source_def example_target_def
      echo_backend_def run_defs)

theorem rerun_is_stable_witness:
  "translate picky_backend ''dir/strings.yml'' [''fr''] example_after =
       (None, example_after\<lparr>stdout := stdout example_after @ map (\<lambda>l. l @ '' complete'') [''fr'']\<rparr>) \<and>
     new_calls example_after (snd (translate picky_backend ''dir/strings.yml'' [''fr''] example_after)) = [] \<and>
     fs (snd (translate picky_backend ''dir/strings.yml'' [''fr''] example_after)) = fs example_after"
  by (rule rerun_is_stable [OF example_first_run])

end
